theory Spec2Isabelle
  imports Complex_Main "HOL-Library.Word"
begin

section \<open>Data model of the Lighthouse light decoder (vl\_light.cpp)\<close>

text \<open>
  One raw light event, \<^verbatim>\<open>vive_headset_lighthouse_pulse2\<close>: a 32-bit tick timestamp, an
  8-bit sensor id and a 16-bit lit duration. The field \<^verbatim>\<open>length\<close> is called
  \<open>length_u16\<close> here, since \<open>length\<close> is the length of a HOL list.
\<close>

record vive_headset_lighthouse_pulse2 =
  timestamp :: "32 word"
  sensor_id :: "8 word"
  length_u16 :: "16 word"

type_synonym vl_lighthouse_samples = "vive_headset_lighthouse_pulse2 list"

text \<open>
  \<^verbatim>\<open>lighthouse_sync_pulse\<close>, one row of the pulse table: the nominal duration and the
  three decoded values, each 0, 1 or -1 (the fields \<^verbatim>\<open>skip\<close>, \<^verbatim>\<open>sweep\<close>,
  \<^verbatim>\<open>data\<close> of the source, prefixed here to keep them apart from the group's fields).
\<close>

record lighthouse_sync_pulse =
  duration :: "16 word"
  sp_skip :: int
  sp_sweep :: int
  sp_data :: int

text \<open>
  \<^verbatim>\<open>vl_light_sample_group\<close>, the shape shared by pulse groups and sweep groups. The
  epoch is a \<^verbatim>\<open>double\<close> in the source. Every epoch the decoder computes is a 32-bit
  timestamp or the mean of two of them, which a double holds exactly, so the rationals
  model it without rounding.
\<close>

record vl_light_sample_group =
  channel :: char
  sweep :: char
  epoch :: rat
  skip :: int
  seq :: int
  samples :: vl_lighthouse_samples

text \<open>
  The value-initialised group \<^verbatim>\<open>vl_light_sample_group()\<close>. The decoder only ever asks
  whether its sample vector is empty (\<^verbatim>\<open>isempty\<close>).
\<close>

definition empty_group :: vl_light_sample_group where
  "empty_group =
     \<lparr>channel = CHR 0x00, sweep = CHR 0x00, epoch = 0, skip = 0, seq = 0, samples = []\<rparr>"

definition isempty :: "vl_light_sample_group \<Rightarrow> bool" where
  "isempty g = (samples g = [])"

text \<open>
  What the source does beyond returning values. A read outside a vector is an error value,
  one for each place where the source can make it: \<^verbatim>\<open>at()\<close> in \<^verbatim>\<open>median_timestamp\<close>
  (which throws \<^verbatim>\<open>std::out_of_range\<close>), \<^verbatim>\<open>operator[]\<close> in \<^verbatim>\<open>median_length\<close> and
  \<^verbatim>\<open>operator[]\<close> in \<^verbatim>\<open>subset\<close>. The messages of \<^verbatim>\<open>vl_error\<close> and \<^verbatim>\<open>vl_warn\<close>
  that the properties below speak about are events of a log.
\<close>

datatype error = Median_timestamp_out_of_range | Median_length_out_of_bounds | Subset_out_of_bounds

datatype log_event =
    No_pulse_class "16 word"
  | Sweep_vector_empty
  | Sweeps_empty
  | Unexpected_number_of_indices nat nat
  | Dimension_missing nat
  | Same_sensor_multiple

text \<open>Conversion of a double to an integer type truncates towards zero.\<close>

definition trunc :: "rat \<Rightarrow> int" where
  "trunc x = (if 0 \<le> x then \<lfloor>x\<rfloor> else \<lceil>x\<rceil>)"

section \<open>Medians\<close>

text \<open>
  \<^verbatim>\<open>median_timestamp\<close> sorts the timestamps as doubles and reads the middle with
  \<^verbatim>\<open>at()\<close>. On an empty vector \<^verbatim>\<open>size % 2 == 0\<close> holds and \<^verbatim>\<open>size / 2 - 1\<close> wraps
  to the largest \<^verbatim>\<open>size_t\<close>, so \<^verbatim>\<open>at()\<close> throws \<^verbatim>\<open>std::out_of_range\<close>.
\<close>

definition median_timestamp :: "vl_lighthouse_samples \<Rightarrow> error + rat" where
  "median_timestamp S =
     (let timestamps = sort (map (\<lambda>s. of_int (uint (timestamp s)) :: rat) S);
          size = length timestamps
      in if size mod 2 = 0
         then (if size = 0 then Inl Median_timestamp_out_of_range
               else Inr ((timestamps ! (size div 2 - 1) + timestamps ! (size div 2)) / 2))
         else Inr (timestamps ! (size div 2)))"

text \<open>
  \<^verbatim>\<open>median_length\<close> is the same over 64-bit integers, with \<^verbatim>\<open>operator[]\<close>: on an
  empty vector the read at \<^verbatim>\<open>size / 2 - 1\<close> is outside the vector. The operands are
  non-negative and below \<open>2 ^ 16\<close>, so the sum does not overflow and the division is
  \<open>div\<close>.
\<close>

definition median_length :: "vl_lighthouse_samples \<Rightarrow> error + int" where
  "median_length S =
     (let lengths = sort (map (\<lambda>s. uint (length_u16 s)) S);
          size = length lengths
      in if size mod 2 = 0
         then (if size = 0 then Inl Median_length_out_of_bounds
               else Inr ((lengths ! (size div 2 - 1) + lengths ! (size div 2)) div 2))
         else Inr (lengths ! (size div 2)))"

definition unique_sensor_ids :: "vl_lighthouse_samples \<Rightarrow> nat" where
  "unique_sensor_ids S = card (set (map sensor_id S))"

section \<open>Pulse classifier\<close>

definition mk_pulse :: "16 word \<Rightarrow> int \<Rightarrow> int \<Rightarrow> int \<Rightarrow> lighthouse_sync_pulse" where
  "mk_pulse d s r b = \<lparr>duration = d, sp_skip = s, sp_sweep = r, sp_data = b\<rparr>"

definition pulse_table :: "lighthouse_sync_pulse list" where
  "pulse_table =
     [mk_pulse 2500 (-1) (-1) (-1),
      mk_pulse 3000 0 0 0,
      mk_pulse 3500 0 1 0,
      mk_pulse 4000 0 0 1,
      mk_pulse 4500 0 1 1,
      mk_pulse 5000 1 0 0,
      mk_pulse 5500 1 1 0,
      mk_pulse 6000 1 0 1,
      mk_pulse 6500 1 1 1,
      mk_pulse 7000 (-1) (-1) (-1)]"

text \<open>
  Modelled from the spec: the value \<^verbatim>\<open>lighthouse_sync_pulse()\<close> that
  \<^verbatim>\<open>lookup_pulse_class\<close> returns when no row matches. The struct is declared in
  vl\_light.h, which is not among the sources; the spec gives the returned class as the
  fully-error class \<open>(-1, -1, -1)\<close>. The duration of that value is not given and is 0 here.
\<close>

definition lighthouse_sync_pulse_default :: lighthouse_sync_pulse where
  "lighthouse_sync_pulse_default = mk_pulse 0 (-1) (-1) (-1)"

text \<open>
  The test of one row. \<^verbatim>\<open>pulselen\<close> and \<^verbatim>\<open>duration\<close> are 16-bit and promoted to
  \<^verbatim>\<open>int\<close> before the subtraction and the comparisons, so nothing wraps.
\<close>

definition pulse_matches :: "16 word \<Rightarrow> lighthouse_sync_pulse \<Rightarrow> bool" where
  "pulse_matches pulselen e =
     (uint pulselen > uint (duration e) - 250 \<and> uint pulselen < uint (duration e) + 250)"

text \<open>The scan \<^verbatim>\<open>for (int i = 0; i < 10; i++)\<close> over the rows, with its fall-through.\<close>

fun lookup_from :: "lighthouse_sync_pulse list \<Rightarrow> 16 word \<Rightarrow> log_event list \<times> lighthouse_sync_pulse" where
  "lookup_from [] pulselen = ([No_pulse_class pulselen], lighthouse_sync_pulse_default)"
| "lookup_from (e # es) pulselen =
     (if pulse_matches pulselen e then ([], e) else lookup_from es pulselen)"

definition lookup_pulse_class :: "16 word \<Rightarrow> log_event list \<times> lighthouse_sync_pulse" where
  "lookup_pulse_class pulselen = lookup_from pulse_table pulselen"

section \<open>Sanitizer\<close>

definition is_sample_valid :: "vive_headset_lighthouse_pulse2 \<Rightarrow> bool" where
  "is_sample_valid s =
     (\<not> (timestamp s = 0xffffffff \<and> sensor_id s = 0xff \<and> length_u16 s = 0xffff))"

primrec filter_reports ::
  "vl_lighthouse_samples \<Rightarrow> (vive_headset_lighthouse_pulse2 \<Rightarrow> bool) \<Rightarrow> vl_lighthouse_samples" where
  "filter_reports [] filter_fun = []"
| "filter_reports (sample # reports) filter_fun =
     (if filter_fun sample then sample # filter_reports reports filter_fun
      else filter_reports reports filter_fun)"

definition sanitize :: "vl_lighthouse_samples \<Rightarrow> vl_lighthouse_samples" where
  "sanitize S = filter_reports S is_sample_valid"

section \<open>Angle ticks\<close>

text \<open>
  \<^verbatim>\<open>ticks_sample_to_angle\<close>: \<^verbatim>\<open>sample.length / 2\<close> is computed in \<^verbatim>\<open>int\<close>, then the
  sum and the difference with the two 32-bit unsigned operands are unsigned 32-bit.
\<close>

definition ticks_sample_to_angle :: "vive_headset_lighthouse_pulse2 \<Rightarrow> 32 word \<Rightarrow> 32 word" where
  "ticks_sample_to_angle sample epoch32 =
     timestamp sample + word_of_int (uint (length_u16 sample) div 2) - epoch32"

text \<open>
  The call sites in \<^verbatim>\<open>collect_readings\<close> pass the double epoch of a sweep for the 32-bit
  parameter: the fraction is cut off. For an epoch between 0 and \<open>2 ^ 32 - 1\<close>, which every
  epoch computed by the decoder is, the conversion is this one.
\<close>

definition epoch_to_u32 :: "rat \<Rightarrow> 32 word" where
  "epoch_to_u32 e = word_of_int (trunc e)"

section \<open>Decoding one pulse set\<close>

text \<open>
  \<^verbatim>\<open>decode_pulse\<close>: the median length, narrowed to 16 bits, is classified. The count of
  duplicate sensors only feeds a warning. The message of the classifier is dropped here, as
  the log is not part of what the decoder returns.
\<close>

definition decode_pulse :: "vl_lighthouse_samples \<Rightarrow> error + (int \<times> int \<times> int)" where
  "decode_pulse S =
     (case median_length S of
        Inl e \<Rightarrow> Inl e
      | Inr m \<Rightarrow>
          (let pulselen = (word_of_int m :: 16 word);
               pulse = snd (lookup_pulse_class pulselen)
           in Inr (sp_skip pulse, sp_sweep pulse, sp_data pulse)))"

text \<open>
  Modelled from the spec: the macros \<^verbatim>\<open>VL_TICK_RATE\<close> and \<^verbatim>\<open>VL_ROTOR_RPS\<close> of
  vl\_light.h, which is not among the sources; the spec's scenarios fix them to 48000000
  ticks per second and 60 rotations per second.
\<close>

definition VL_TICK_RATE :: int where
  "VL_TICK_RATE = 48000000"

definition VL_ROTOR_RPS :: int where
  "VL_ROTOR_RPS = 60"

text \<open>
  \<^verbatim>\<open>channel_detect\<close>: the previous pulse time arrives as a 32-bit unsigned value, the new
  one as a double; their difference is cut to a 64-bit integer. All values are far inside
  64 bits, so \<open>int\<close> holds them, and \<^verbatim>\<open>abs\<close> is the absolute value.
\<close>

definition channel_detect :: "32 word \<Rightarrow> rat \<Rightarrow> char" where
  "channel_detect last_pulse_time new_pulse_time =
     (let period = VL_TICK_RATE div VL_ROTOR_RPS div 2;
          space = (20000 :: int);
          dt = trunc (new_pulse_time - of_int (uint last_pulse_time))
      in if \<bar>dt - period\<bar> < 4000 then CHR ''A''
         else if \<bar>dt - (period - space)\<bar> < 4000 then CHR ''B''
         else if \<bar>dt - space\<bar> < 4000 then CHR ''C''
         else CHR ''e'')"

text \<open>
  \<^verbatim>\<open>process_pulse_set\<close>: its second parameter is a 64-bit integer, which
  \<^verbatim>\<open>channel_detect\<close> narrows to 32 bits. The index \<^verbatim>\<open>sweepi + 1\<close> into
  \<^verbatim>\<open>key\<close> is 0, 1 or 2 for every class of the table.
\<close>

definition process_pulse_set :: "vl_lighthouse_samples \<Rightarrow> int \<Rightarrow> error + vl_light_sample_group" where
  "process_pulse_set S last_pulse =
     (case decode_pulse S of
        Inl e \<Rightarrow> Inl e
      | Inr (skip', sweepi, databit) \<Rightarrow>
          (case median_timestamp S of
             Inl e \<Rightarrow> Inl e
           | Inr t \<Rightarrow>
               (let ch = channel_detect (word_of_int last_pulse) t;
                    key = [CHR ''e'', CHR ''H'', CHR ''V''];
                    sweep' = key ! nat (sweepi + 1)
                in Inr \<lparr>channel = ch, sweep = sweep', epoch = t, skip = skip', seq = 0,
                        samples = []\<rparr>)))"

section \<open>The pulse state machine\<close>

text \<open>
  \<^verbatim>\<open>update_pulse_state\<close> returns the new last pulse epoch, the new current sweep, the new
  sequence number and the pulse to emit (empty when there is none).
\<close>

definition update_pulse_state ::
  "vl_lighthouse_samples \<Rightarrow> rat \<Rightarrow> vl_light_sample_group \<Rightarrow> int
     \<Rightarrow> error + (rat \<times> vl_light_sample_group \<times> int \<times> vl_light_sample_group)" where
  "update_pulse_state pulse_samples last_pulse_epoch current_sweep seq' =
     (case process_pulse_set pulse_samples (trunc last_pulse_epoch) of
        Inl e \<Rightarrow> Inl e
      | Inr pulse \<Rightarrow>
          (if channel pulse = CHR ''e'' \<or> length pulse_samples < 5
           then Inr (epoch pulse, empty_group, seq', empty_group)
           else if skip pulse = 0
           then (let seq2 = (if (channel pulse = CHR ''A'' \<or> channel pulse = CHR ''B'')
                                  \<and> sweep pulse = CHR ''H''
                             then seq' + 1 else seq')
                 in Inr (epoch pulse,
                         pulse\<lparr>samples := pulse_samples\<rparr>,
                         seq2,
                         \<lparr>channel = channel pulse, sweep = sweep pulse, epoch = epoch pulse,
                          skip = 0, seq = seq2, samples = pulse_samples\<rparr>))
           else Inr (epoch pulse, current_sweep, seq', empty_group)))"

section \<open>Segmenting the stream\<close>

text \<open>
  \<^verbatim>\<open>subset(D, indices)\<close> reads \<^verbatim>\<open>D[i]\<close> for every index; a read outside \<^verbatim>\<open>D\<close> is an
  error of the model.
\<close>

fun subset :: "vl_lighthouse_samples \<Rightarrow> nat list \<Rightarrow> error + vl_lighthouse_samples" where
  "subset D [] = Inr []"
| "subset D (i # indices) =
     (if i < length D
      then (case subset D indices of Inl e \<Rightarrow> Inl e | Inr results \<Rightarrow> Inr (D ! i # results))
      else Inl Subset_out_of_bounds)"

text \<open>
  The local variables of \<^verbatim>\<open>process_lighthouse_samples\<close>. The indices are \<^verbatim>\<open>int\<close> in
  the source and naturals here, which agree for streams of fewer than \<open>2 ^ 31\<close> events.
\<close>

record loop_state =
  pulse_inds :: "nat list"
  sweep_inds :: "nat list"
  last_pulse_epoch :: rat
  st_seq :: int
  current_sweep :: vl_light_sample_group
  pulse_range :: "32 word \<times> 32 word"
  pulses :: "vl_light_sample_group list"
  sweeps :: "vl_light_sample_group list"

definition init_state :: loop_state where
  "init_state =
     \<lparr>pulse_inds = [], sweep_inds = [], last_pulse_epoch = - 1000000, st_seq = 0,
      current_sweep = empty_group, pulse_range = (0xffffffff, 0), pulses = [], sweeps = []\<rparr>"

text \<open>
  "Process the pulse set": the statements that the source has twice, once when a sweep
  sample ends a pulse set and once when a pulse sample outside the set does.
\<close>

definition flush_pulse_set :: "vl_lighthouse_samples \<Rightarrow> loop_state \<Rightarrow> error + loop_state" where
  "flush_pulse_set D st =
     (case subset D (pulse_inds st) of
        Inl e \<Rightarrow> Inl e
      | Inr S \<Rightarrow>
          (case update_pulse_state S (last_pulse_epoch st) (current_sweep st) (st_seq st) of
             Inl e \<Rightarrow> Inl e
           | Inr (lpe, cs, sq, pulse) \<Rightarrow>
               Inr (st\<lparr>last_pulse_epoch := lpe, current_sweep := cs, st_seq := sq,
                       pulse_inds := [], pulse_range := (0xffffffff, 0),
                       pulses := (if \<not> isempty pulse then pulses st @ [pulse] else pulses st)\<rparr>)))"

text \<open>"Store one sweep": the group takes its channel, rotor and epoch from the current sweep.\<close>

definition store_sweep :: "vl_lighthouse_samples \<Rightarrow> loop_state \<Rightarrow> error + loop_state" where
  "store_sweep D st =
     (case subset D (sweep_inds st) of
        Inl e \<Rightarrow> Inl e
      | Inr S \<Rightarrow>
          (let sweep' = \<lparr>channel = channel (current_sweep st), sweep = sweep (current_sweep st),
                         epoch = epoch (current_sweep st), skip = 0, seq = st_seq st,
                         samples = S\<rparr>
           in Inr (st\<lparr>sweep_inds := [],
                      sweeps := (if \<not> isempty (current_sweep st) then sweeps st @ [sweep']
                                 else sweeps st)\<rparr>)))"

text \<open>
  The end of a sample's lit period, \<^verbatim>\<open>sample.timestamp + sample.length\<close>, is an unsigned
  32-bit sum and wraps.
\<close>

definition sample_end :: "vive_headset_lighthouse_pulse2 \<Rightarrow> 32 word" where
  "sample_end s = timestamp s + ucast (length_u16 s)"

text \<open>The body of the loop for the sample at index \<open>i\<close>.\<close>

definition step :: "vl_lighthouse_samples \<Rightarrow> nat \<Rightarrow> loop_state \<Rightarrow> error + loop_state" where
  "step D i st =
     (let sample = D ! i
      in if uint (length_u16 sample) < 2000
         then (case (if pulse_inds st \<noteq> [] then flush_pulse_set D st else Inr st) of
                 Inl e \<Rightarrow> Inl e
               | Inr st1 \<Rightarrow>
                   (if isempty (current_sweep st1) then Inr st1
                    else Inr (st1\<lparr>sweep_inds := sweep_inds st1 @ [i]\<rparr>)))
         else (case (if sweep_inds st \<noteq> [] then store_sweep D st else Inr st) of
                 Inl e \<Rightarrow> Inl e
               | Inr st1 \<Rightarrow>
                   (if pulse_inds st1 = []
                       \<or> (timestamp sample \<le> snd (pulse_range st1)
                           \<and> sample_end sample \<ge> fst (pulse_range st1))
                    then Inr (st1\<lparr>pulse_range :=
                                    (min (fst (pulse_range st1)) (timestamp sample),
                                     max (snd (pulse_range st1)) (sample_end sample)),
                                  pulse_inds := pulse_inds st1 @ [i]\<rparr>)
                    else flush_pulse_set D st1)))"

text \<open>
  The state after the first \<open>n\<close> rounds of \<^verbatim>\<open>for (unsigned i = 0; i < D.size(); i++)\<close>;
  an error ends the run.
\<close>

fun run :: "vl_lighthouse_samples \<Rightarrow> nat \<Rightarrow> error + loop_state" where
  "run D 0 = Inr init_state"
| "run D (Suc n) = (case run D n of Inl e \<Rightarrow> Inl e | Inr st \<Rightarrow> step D n st)"

text \<open>The function returns the pair (sweeps, pulses) once every sample has had its round.\<close>

definition process_lighthouse_samples ::
  "vl_lighthouse_samples
     \<Rightarrow> error + (vl_light_sample_group list \<times> vl_light_sample_group list)" where
  "process_lighthouse_samples D =
     (case run D (length D) of Inl e \<Rightarrow> Inl e | Inr st \<Rightarrow> Inr (sweeps st, pulses st))"

section \<open>Angle collator\<close>

text \<open>
  \<^verbatim>\<open>vl_angles\<close>, declared in vl\_light.h: three parallel vectors \<^verbatim>\<open>x\<close>, \<^verbatim>\<open>y\<close> and
  \<^verbatim>\<open>t\<close> (prefixed here). The angles are the 32-bit results of
  \<^verbatim>\<open>ticks_sample_to_angle\<close>; the time is the epoch of the horizontal sweep as it is
  handed to \<^verbatim>\<open>push_back\<close> (a vector of 32-bit elements keeps its integer part).
\<close>

record vl_angles =
  ang_x :: "32 word list"
  ang_y :: "32 word list"
  ang_t :: "rat list"

definition vl_angles_empty :: vl_angles where
  "vl_angles_empty = \<lparr>ang_x = [], ang_y = [], ang_t = []\<rparr>"

type_synonym readings = "nat \<rightharpoonup> vl_angles"




definition filter_samples_by_sensor_id :: "vl_lighthouse_samples \<Rightarrow> int \<Rightarrow> vl_lighthouse_samples" where
  "filter_samples_by_sensor_id S sid = filter (\<lambda>s. uint (sensor_id s) = sid) S"

text \<open>One round of \<^verbatim>\<open>for (unsigned s = 0; s < 32; s++)\<close>, on the map and the log.\<close>

definition sensor_round ::
  "vl_light_sample_group \<Rightarrow> vl_light_sample_group \<Rightarrow> readings \<times> log_event list \<Rightarrow> nat
     \<Rightarrow> readings \<times> log_event list" where
  "sensor_round x_sweep y_sweep st s =
     (let R = fst st;
          xi = filter_samples_by_sensor_id (samples x_sweep) (int s);
          yi = filter_samples_by_sensor_id (samples y_sweep) (int s);
          lg = (if length xi > 1 \<or> length yi > 1 then snd st @ [Same_sensor_multiple]
                else snd st)
      in if length xi < 1 \<or> length yi < 1 then (R, lg)
         else (let a = (case R s of None \<Rightarrow> vl_angles_empty | Some a' \<Rightarrow> a');
                   x_ang = ticks_sample_to_angle (xi ! 0) (epoch_to_u32 (epoch x_sweep));
                   y_ang = ticks_sample_to_angle (yi ! 0) (epoch_to_u32 (epoch y_sweep))
               in (R(s \<mapsto> \<lparr>ang_x = ang_x a @ [x_ang], ang_y = ang_y a @ [y_ang],
                            ang_t = ang_t a @ [epoch x_sweep]\<rparr>), lg)))"







section \<open>Concrete streams\<close>

text \<open>Streams, sweep lists and loop states on which the properties below are evaluated.\<close>

definition mk_sample :: "32 word \<Rightarrow> 8 word \<Rightarrow> 16 word \<Rightarrow> vive_headset_lighthouse_pulse2" where
  "mk_sample t s l = \<lparr>timestamp = t, sensor_id = s, length_u16 = l\<rparr>"

text \<open>A stream with the sentinel triple before and after one real event.\<close>

definition sentinel_stream :: vl_lighthouse_samples where
  "sentinel_stream =
     [mk_sample 0xffffffff 0xff 0xffff, mk_sample 100 3 3000, mk_sample 0xffffffff 0xff 0xffff]"

text \<open>
  A horizontal sweep whose epoch lies after its only sample, and a vertical sweep of the
  same station and sequence number.
\<close>

definition early_x_sweep :: vl_light_sample_group where
  "early_x_sweep = \<lparr>channel = CHR ''B'', sweep = CHR ''H'', epoch = 200000, skip = 0, seq = 1,
       samples = [mk_sample 100 0 200]\<rparr>"

definition late_y_sweep :: vl_light_sample_group where
  "late_y_sweep = \<lparr>channel = CHR ''B'', sweep = CHR ''V'', epoch = 600000, skip = 0, seq = 1,
       samples = [mk_sample 600060 0 120]\<rparr>"

definition pulse_cluster :: "32 word \<Rightarrow> 16 word \<Rightarrow> nat \<Rightarrow> vl_lighthouse_samples" where
  "pulse_cluster t l n = map (\<lambda>s. mk_sample t (of_nat s) l) [0..<n]"

text \<open>
  Scenario S1: eight pulse events of length 3000 at tick 0, eight sweep events of length
  500 at tick 200000, eight pulse events of length 3500 at tick 380000 and eight sweep
  events at tick 580000, each group over the sensors 0 to 7.
\<close>

definition scenario_S1 :: vl_lighthouse_samples where
  "scenario_S1 = pulse_cluster 0 3000 8 @ pulse_cluster 200000 500 8
      @ pulse_cluster 380000 3500 8 @ pulse_cluster 580000 500 8"

definition S1_pulse :: vl_light_sample_group where
  "S1_pulse = \<lparr>channel = CHR ''B'', sweep = CHR ''V'', epoch = 380000, skip = 0, seq = 0,
       samples = pulse_cluster 380000 3500 8\<rparr>"

text \<open>A stream that ends inside a pulse set one period after the previous pulse.\<close>

definition trailing_pulse_stream :: vl_lighthouse_samples where
  "trailing_pulse_stream =
     pulse_cluster 0 3000 5 @ [mk_sample 200000 0 500] @ pulse_cluster 400000 3000 5"

text \<open>
  A stream with a pulse set of median length 2700 one period after a valid pulse, followed
  by a sweep event and one more pulse event.
\<close>

definition unclassified_stream :: vl_lighthouse_samples where
  "unclassified_stream =
     pulse_cluster 0 3000 5 @ [mk_sample 200000 0 500] @ pulse_cluster 400000 3000 5
     @ [mk_sample 500000 0 500] @ pulse_cluster 800000 2700 5
     @ [mk_sample 900000 1 500, mk_sample 1200000 0 3000]"

text \<open>A stream with a pulse set whose first and last events do not meet.\<close>

definition chain_stream :: vl_lighthouse_samples where
  "chain_stream =
     pulse_cluster 0 3000 5 @ [mk_sample 200000 0 500] @ pulse_cluster 400000 3000 3
     @ [mk_sample 402000 3 3000, mk_sample 404500 4 3000, mk_sample 600000 0 500]"


text \<open>The pulse group that \<open>chain_stream\<close> yields.\<close>

definition chain_group :: vl_light_sample_group where
  "chain_group = \<lparr>channel = CHR ''A'', sweep = CHR ''H'', epoch = 400000, skip = 0, seq = 1,
       samples = pulse_cluster 400000 3000 3
                 @ [mk_sample 402000 3 3000, mk_sample 404500 4 3000]\<rparr>"

text \<open>The groups that \<open>unclassified_stream\<close> yields.\<close>

definition resync_pulse :: vl_light_sample_group where
  "resync_pulse = \<lparr>channel = CHR ''A'', sweep = CHR ''H'', epoch = 400000, skip = 0, seq = 1,
       samples = pulse_cluster 400000 3000 5\<rparr>"

definition stale_sweeps :: "vl_light_sample_group list" where
  "stale_sweeps =
     [\<lparr>channel = CHR ''A'', sweep = CHR ''H'', epoch = 400000, skip = 0, seq = 1,
       samples = [mk_sample 500000 0 500]\<rparr>,
      \<lparr>channel = CHR ''A'', sweep = CHR ''H'', epoch = 400000, skip = 0, seq = 1,
       samples = [mk_sample 900000 1 500]\<rparr>]"

text \<open>The state of the loop after the last event of \<open>trailing_pulse_stream\<close>.\<close>

definition trailing_state :: loop_state where
  "trailing_state =
     \<lparr>pulse_inds = [6, 7, 8, 9, 10], sweep_inds = [], last_pulse_epoch = 0, st_seq = 0,
      current_sweep = empty_group, pulse_range = (400000, 403000), pulses = [], sweeps = []\<rparr>"

text \<open>A stream whose only pulse set has no usable predecessor, and the state after it.\<close>

definition dropped_stream :: vl_lighthouse_samples where
  "dropped_stream = pulse_cluster 0 3000 5 @ [mk_sample 200000 0 500]"

definition dropped_state :: loop_state where
  "dropped_state =
     \<lparr>pulse_inds = [], sweep_inds = [], last_pulse_epoch = 0, st_seq = 0,
      current_sweep = empty_group, pulse_range = (0xffffffff, 0), pulses = [], sweeps = []\<rparr>"

text \<open>
  The state of the loop in \<open>unclassified_stream\<close> when the pulse set of median length
  2700 is complete, one period after the valid pulse.
\<close>

definition pending_2700_state :: loop_state where
  "pending_2700_state =
     \<lparr>pulse_inds = [12, 13, 14, 15, 16], sweep_inds = [], last_pulse_epoch = 400000,
      st_seq = 1, current_sweep = resync_pulse\<lparr>seq := 0\<rparr>, pulse_range = (800000, 802700),
      pulses = [resync_pulse], sweeps = [stale_sweeps ! 0]\<rparr>"

text \<open>A stream that starts with a pulse set of median length 2700, and the state after it.\<close>

definition first_2700_stream :: vl_lighthouse_samples where
  "first_2700_stream = pulse_cluster 0 2700 5"

definition first_2700_state :: loop_state where
  "first_2700_state =
     \<lparr>pulse_inds = [0, 1, 2, 3, 4], sweep_inds = [], last_pulse_epoch = - 1000000, st_seq = 0,
      current_sweep = empty_group, pulse_range = (0, 2700), pulses = [], sweeps = []\<rparr>"



section \<open>Notions used to state the properties\<close>

text \<open>All buffered indices lie below \<open>n\<close>.\<close>

definition idx_ok :: "nat \<Rightarrow> loop_state \<Rightarrow> bool" where
  "idx_ok n st = ((\<forall>i\<in>set (pulse_inds st). i < n) \<and> (\<forall>i\<in>set (sweep_inds st). i < n))"

text \<open>The closed intervals [timestamp, timestamp + length] of two events meet.\<close>

definition intervals_overlap ::
  "vive_headset_lighthouse_pulse2 \<Rightarrow> vive_headset_lighthouse_pulse2 \<Rightarrow> bool" where
  "intervals_overlap a b =
     (uint (timestamp a) \<le> uint (timestamp b) + uint (length_u16 b)
      \<and> uint (timestamp b) \<le> uint (timestamp a) + uint (length_u16 a))"

text \<open>
  The range kept in \<^verbatim>\<open>pulse_range\<close>: starting from (\<^verbatim>\<open>UINT32_MAX\<close>, 0), every event
  of the pulse set lowers the start to its timestamp and raises the end to its end.
\<close>

definition extend_range ::
  "32 word \<times> 32 word \<Rightarrow> vive_headset_lighthouse_pulse2 \<Rightarrow> 32 word \<times> 32 word" where
  "extend_range r s = (min (fst r) (timestamp s), max (snd r) (sample_end s))"

definition range_of :: "vl_lighthouse_samples \<Rightarrow> 32 word \<times> 32 word" where
  "range_of S = foldl extend_range (0xffffffff, 0) S"

text \<open>The membership test of the source: the event meets the range.\<close>

definition overlaps_range :: "vive_headset_lighthouse_pulse2 \<Rightarrow> 32 word \<times> 32 word \<Rightarrow> bool" where
  "overlaps_range s r = (timestamp s \<le> snd r \<and> fst r \<le> sample_end s)"

text \<open>Every event but the first meets the range of the events before it.\<close>

definition chained :: "vl_lighthouse_samples \<Rightarrow> bool" where
  "chained S = (\<forall>k\<in>{1..<length S}. overlaps_range (S ! k) (range_of (take k S)))"

definition pulse_set_inv :: "vl_lighthouse_samples \<Rightarrow> loop_state \<Rightarrow> bool" where
  "pulse_set_inv D st =
     (pulse_range st = range_of (map ((!) D) (pulse_inds st))
      \<and> chained (map ((!) D) (pulse_inds st))
      \<and> (\<forall>g\<in>set (pulses st). chained (samples g)))"

text \<open>A sweep group \<open>s\<close> has the channel, rotor, epoch and sequence number of the pulse group \<open>p\<close>.\<close>

definition inherits :: "vl_light_sample_group \<Rightarrow> vl_light_sample_group \<Rightarrow> bool" where
  "inherits s p =
     (channel p = channel s \<and> sweep p = sweep s \<and> epoch p = epoch s \<and> seq p = seq s)"

text \<open>
  The current sweep is empty, or an emitted pulse group carries its channel, rotor and
  epoch together with the current sequence number.
\<close>

definition sweep_backed :: "loop_state \<Rightarrow> bool" where
  "sweep_backed st =
     (isempty (current_sweep st)
      \<or> (\<exists>p\<in>set (pulses st). channel p = channel (current_sweep st)
            \<and> sweep p = sweep (current_sweep st) \<and> epoch p = epoch (current_sweep st)
            \<and> seq p = st_seq st))"










section \<open>Verified properties\<close>

subsection \<open>Sanitizer\<close>

lemma filter_reports_filter: "filter_reports S f = filter f S"
  by (induction S) simp_all

text \<open>
  C8. The sanitizer, \<^verbatim>\<open>filter_reports\<close> with \<^verbatim>\<open>is_sample_valid\<close>, is idempotent:
  sanitizing a sanitized sample list gives the same list, for every sample list.
\<close>

theorem sanitize_idempotent: "sanitize (sanitize S) = sanitize S"
  by (simp add: sanitize_def filter_reports_filter)

theorem sanitize_idempotent_witness:
  "sanitize (sanitize sentinel_stream) = sanitize sentinel_stream
   \<and> sanitize sentinel_stream = [mk_sample 100 3 3000]"
  using sanitize_idempotent [of sentinel_stream]
  by (simp add: sanitize_def is_sample_valid_def mk_sample_def sentinel_stream_def)

subsection \<open>Pulse classifier\<close>

lemma pulse_matches_abs: "pulse_matches L e \<longleftrightarrow> \<bar>uint L - uint (duration e)\<bar> < 250"
  by (auto simp: pulse_matches_def)

lemma lookup_from_first:
  "i < length es \<Longrightarrow> pulse_matches L (es ! i) \<Longrightarrow> \<forall>j<i. \<not> pulse_matches L (es ! j)
     \<Longrightarrow> lookup_from es L = ([], es ! i)"
proof (induction es arbitrary: i)
  case Nil
  then show ?case by simp
next
  case (Cons e es)
  show ?case
  proof (cases i)
    case 0
    with Cons.prems show ?thesis by simp
  next
    case (Suc k)
    from Cons.prems Suc have "\<not> pulse_matches L e" by auto
    moreover have "lookup_from es L = ([], es ! k)"
      using Cons.prems Suc by (intro Cons.IH) auto
    ultimately show ?thesis using Suc by simp
  qed
qed

lemma lookup_from_none:
  "\<forall>i<length es. \<not> pulse_matches L (es ! i)
     \<Longrightarrow> lookup_from es L = ([No_pulse_class L], lighthouse_sync_pulse_default)"
proof (induction es)
  case Nil
  then show ?case by simp
next
  case (Cons e es)
  from Cons.prems have "\<not> pulse_matches L e" by auto
  moreover from Cons.prems have "\<forall>i<length es. \<not> pulse_matches L (es ! i)" by auto
  ultimately show ?case using Cons.IH by simp
qed

text \<open>
  C2. For every pulse length \<open>L\<close>, \<^verbatim>\<open>lookup_pulse_class\<close> returns the first row of the
  table whose duration \<open>d\<close> satisfies \<open>|L - d| < 250\<close>, without a message; if no row
  matches, it reports the error and returns the class with skip = rotor = databit = -1.
\<close>

theorem lookup_pulse_class_first_match:
  "(\<forall>i<length pulse_table.
       \<bar>uint L - uint (duration (pulse_table ! i))\<bar> < 250
       \<and> (\<forall>j<i. \<not> \<bar>uint L - uint (duration (pulse_table ! j))\<bar> < 250)
       \<longrightarrow> lookup_pulse_class L = ([], pulse_table ! i))
   \<and> ((\<forall>i<length pulse_table. \<not> \<bar>uint L - uint (duration (pulse_table ! i))\<bar> < 250)
       \<longrightarrow> fst (lookup_pulse_class L) = [No_pulse_class L]
           \<and> sp_skip (snd (lookup_pulse_class L)) = - 1
           \<and> sp_sweep (snd (lookup_pulse_class L)) = - 1
           \<and> sp_data (snd (lookup_pulse_class L)) = - 1)"
proof (intro conjI allI impI)
  fix i
  assume "i < length pulse_table"
    and "\<bar>uint L - uint (duration (pulse_table ! i))\<bar> < 250
         \<and> (\<forall>j<i. \<not> \<bar>uint L - uint (duration (pulse_table ! j))\<bar> < 250)"
  then show "lookup_pulse_class L = ([], pulse_table ! i)"
    unfolding lookup_pulse_class_def
    by (intro lookup_from_first) (simp_all add: pulse_matches_abs)
next
  assume "\<forall>i<length pulse_table. \<not> \<bar>uint L - uint (duration (pulse_table ! i))\<bar> < 250"
  then have *: "lookup_pulse_class L = ([No_pulse_class L], lighthouse_sync_pulse_default)"
    unfolding lookup_pulse_class_def
    by (intro lookup_from_none) (simp add: pulse_matches_abs)
  show "fst (lookup_pulse_class L) = [No_pulse_class L]" by (simp add: *)
  show "sp_skip (snd (lookup_pulse_class L)) = - 1"
    by (simp add: * lighthouse_sync_pulse_default_def mk_pulse_def)
  show "sp_sweep (snd (lookup_pulse_class L)) = - 1"
    by (simp add: * lighthouse_sync_pulse_default_def mk_pulse_def)
  show "sp_data (snd (lookup_pulse_class L)) = - 1"
    by (simp add: * lighthouse_sync_pulse_default_def mk_pulse_def)
qed

theorem lookup_pulse_class_first_match_witness:
  "(1::nat) < length pulse_table
   \<and> \<bar>uint (3100 :: 16 word) - uint (duration (pulse_table ! 1))\<bar> < 250
   \<and> lookup_pulse_class 3100 = ([], mk_pulse 3000 0 0 0)
   \<and> fst (lookup_pulse_class 2750) = [No_pulse_class 2750]
   \<and> sp_skip (snd (lookup_pulse_class 2750)) = - 1
   \<and> sp_sweep (snd (lookup_pulse_class 2750)) = - 1
   \<and> sp_data (snd (lookup_pulse_class 2750)) = - 1"
proof -
  have len: "(1::nat) < length pulse_table" by (simp add: pulse_table_def)
  have a: "\<bar>uint (3100 :: 16 word) - uint (duration (pulse_table ! 1))\<bar> < 250"
    by (simp add: pulse_table_def mk_pulse_def)
  have b: "\<forall>j<(1::nat). \<not> \<bar>uint (3100 :: 16 word) - uint (duration (pulse_table ! j))\<bar> < 250"
    by (simp add: pulse_table_def mk_pulse_def)
  have c: "\<forall>i<length pulse_table. \<not> \<bar>uint (2750 :: 16 word) - uint (duration (pulse_table ! i))\<bar> < 250"
  proof -
    have "list_all (\<lambda>e. \<not> \<bar>uint (2750 :: 16 word) - uint (duration e)\<bar> < 250) pulse_table"
      by (simp add: pulse_table_def mk_pulse_def)
    then show ?thesis by (simp add: list_all_length)
  qed
  have r1: "lookup_pulse_class 3100 = ([], pulse_table ! 1)"
    using lookup_pulse_class_first_match [of 3100] len a b by blast
  have r2: "fst (lookup_pulse_class 2750) = [No_pulse_class 2750]
           \<and> sp_skip (snd (lookup_pulse_class 2750)) = - 1
           \<and> sp_sweep (snd (lookup_pulse_class 2750)) = - 1
           \<and> sp_data (snd (lookup_pulse_class 2750)) = - 1"
    using lookup_pulse_class_first_match [of 2750] c by blast
  have t1: "pulse_table ! 1 = mk_pulse 3000 0 0 0" by (simp add: pulse_table_def)
  show ?thesis using len a r1 r2 t1 by simp
qed

subsection \<open>Angle ticks\<close>

lemma uint_ticks:
  "uint (ticks_sample_to_angle s e)
     = (uint (timestamp s) + uint (length_u16 s) div 2 - uint e) mod 2 ^ 32"
proof -
  have h: "uint (length_u16 s) div 2 < 2 ^ 32"
    using uint_lt2p [of "length_u16 s"] by simp
  have "uint (word_of_int (uint (length_u16 s) div 2) :: 32 word) = uint (length_u16 s) div 2"
    using h by (simp add: uint_word_of_int take_bit_eq_mod pos_imp_zdiv_nonneg_iff)
  then show ?thesis
    unfolding ticks_sample_to_angle_def
    by (simp add: uint_word_ariths mod_simps)
qed

lemma uint_epoch_to_u32:
  assumes "0 \<le> ep" "ep < 2 ^ 32"
  shows "uint (epoch_to_u32 ep) = \<lfloor>ep\<rfloor>"
proof -
  have "0 \<le> \<lfloor>ep\<rfloor>" using assms by simp
  moreover have "\<lfloor>ep\<rfloor> < 2 ^ 32" using assms by (simp add: floor_less_iff)
  ultimately show ?thesis using assms
    by (simp add: epoch_to_u32_def trunc_def uint_word_of_int take_bit_eq_mod)
qed

text \<open>
  C10. \<^verbatim>\<open>ticks_sample_to_angle\<close> computes timestamp + length/2 - epoch in unsigned
  32-bit arithmetic, that is modulo \<open>2 ^ 32\<close>. The call sites in \<^verbatim>\<open>collect_readings\<close>
  hand it the sweep's epoch cut to 32 bits, and the angle recorded for a sensor is its
  result on the first sample of that sensor. Whenever the cut epoch exceeds
  timestamp + length/2, the result is the difference plus \<open>2 ^ 32\<close>: it wraps, it is not
  negative and no error is raised.
\<close>

theorem ticks_sample_to_angle_wraps:
  "uint (ticks_sample_to_angle s e)
     = (uint (timestamp s) + uint (length_u16 s) div 2 - uint e) mod 2 ^ 32
   \<and> (0 \<le> ep \<and> ep < 2 ^ 32 \<and> uint (timestamp s) + uint (length_u16 s) div 2 < \<lfloor>ep\<rfloor>
        \<longrightarrow> uint (ticks_sample_to_angle s (epoch_to_u32 ep))
            = uint (timestamp s) + uint (length_u16 s) div 2 - \<lfloor>ep\<rfloor> + 2 ^ 32)
   \<and> (filter_samples_by_sensor_id (samples x_sweep) (int n) = x0 # xr
        \<and> filter_samples_by_sensor_id (samples y_sweep) (int n) = y0 # yr
        \<longrightarrow> (\<exists>a. fst (sensor_round x_sweep y_sweep st n) n = Some a
              \<and> last (ang_x a) = ticks_sample_to_angle x0 (epoch_to_u32 (epoch x_sweep))
              \<and> last (ang_y a) = ticks_sample_to_angle y0 (epoch_to_u32 (epoch y_sweep))))"
proof (intro conjI impI)
  show "uint (ticks_sample_to_angle s e)
     = (uint (timestamp s) + uint (length_u16 s) div 2 - uint e) mod 2 ^ 32"
    by (rule uint_ticks)
next
  assume a: "0 \<le> ep \<and> ep < 2 ^ 32 \<and> uint (timestamp s) + uint (length_u16 s) div 2 < \<lfloor>ep\<rfloor>"
  then have e: "uint (epoch_to_u32 ep) = \<lfloor>ep\<rfloor>" by (simp add: uint_epoch_to_u32)
  have lo: "0 \<le> uint (timestamp s) + uint (length_u16 s) div 2"
    by (simp add: pos_imp_zdiv_nonneg_iff)
  have hi: "\<lfloor>ep\<rfloor> < 2 ^ 32" using a by (simp add: floor_less_iff)
  let ?d = "uint (timestamp s) + uint (length_u16 s) div 2 - \<lfloor>ep\<rfloor>"
  have "?d mod 2 ^ 32 = (?d + 2 ^ 32) mod 2 ^ 32" by simp
  also have "\<dots> = ?d + 2 ^ 32"
    using a lo hi by (intro mod_pos_pos_trivial) linarith+
  finally show "uint (ticks_sample_to_angle s (epoch_to_u32 ep)) = ?d + 2 ^ 32"
    by (simp add: uint_ticks e)
next
  assume "filter_samples_by_sensor_id (samples x_sweep) (int n) = x0 # xr
        \<and> filter_samples_by_sensor_id (samples y_sweep) (int n) = y0 # yr"
  then show "\<exists>a. fst (sensor_round x_sweep y_sweep st n) n = Some a
              \<and> last (ang_x a) = ticks_sample_to_angle x0 (epoch_to_u32 (epoch x_sweep))
              \<and> last (ang_y a) = ticks_sample_to_angle y0 (epoch_to_u32 (epoch y_sweep))"
    by (simp add: sensor_round_def Let_def)
qed

theorem ticks_sample_to_angle_wraps_witness:
  "uint (ticks_sample_to_angle (mk_sample 100 0 200) (epoch_to_u32 200000)) = 4294767496
   \<and> (\<exists>a. fst (sensor_round early_x_sweep late_y_sweep (Map.empty, []) 0) 0 = Some a
         \<and> last (ang_x a) = 4294767496 \<and> last (ang_y a) = 120)"
proof -
  have f1: "filter_samples_by_sensor_id (samples early_x_sweep) (int 0) = mk_sample 100 0 200 # []"
    by (simp add: filter_samples_by_sensor_id_def early_x_sweep_def mk_sample_def)
  have f2: "filter_samples_by_sensor_id (samples late_y_sweep) (int 0) = mk_sample 600060 0 120 # []"
    by (simp add: filter_samples_by_sensor_id_def late_y_sweep_def mk_sample_def)
  have h: "(0::rat) \<le> 200000 \<and> (200000::rat) < 2 ^ 32
      \<and> uint (timestamp (mk_sample 100 0 200)) + uint (length_u16 (mk_sample 100 0 200)) div 2 < \<lfloor>200000::rat\<rfloor>"
    by (simp add: mk_sample_def)
  note T = ticks_sample_to_angle_wraps [of "mk_sample 100 0 200" 0 200000 early_x_sweep 0
      "mk_sample 100 0 200" "[]" late_y_sweep "mk_sample 600060 0 120" "[]" "(Map.empty, [])"]
  have a1: "uint (ticks_sample_to_angle (mk_sample 100 0 200) (epoch_to_u32 200000)) = 4294767496"
    using T h by (simp add: mk_sample_def)
  have a2: "ticks_sample_to_angle (mk_sample 100 0 200) (epoch_to_u32 200000) = 4294767496"
    by (simp add: ticks_sample_to_angle_def epoch_to_u32_def trunc_def mk_sample_def)
  have a3: "ticks_sample_to_angle (mk_sample 600060 0 120) (epoch_to_u32 600000) = 120"
    by (simp add: ticks_sample_to_angle_def epoch_to_u32_def trunc_def mk_sample_def)
  from T f1 f2 have "\<exists>a. fst (sensor_round early_x_sweep late_y_sweep (Map.empty, []) 0) 0 = Some a
              \<and> last (ang_x a) = ticks_sample_to_angle (mk_sample 100 0 200) (epoch_to_u32 (epoch early_x_sweep))
              \<and> last (ang_y a) = ticks_sample_to_angle (mk_sample 600060 0 120) (epoch_to_u32 (epoch late_y_sweep))"
    by blast
  then show ?thesis using a1 a2 a3 by (simp add: early_x_sweep_def late_y_sweep_def)
qed

subsection \<open>The pipeline never reads outside a vector\<close>

lemma subset_ok:
  "\<forall>i\<in>set inds. i < length D \<Longrightarrow> subset D inds = Inr (map ((!) D) inds)"
  by (induction inds) simp_all

lemma subset_Inr:
  "subset D inds = Inr S \<Longrightarrow> S = map ((!) D) inds \<and> (\<forall>i\<in>set inds. i < length D)"
  by (induction inds arbitrary: S) (auto split: if_splits sum.splits)

lemma subset_Inl: "subset D inds = Inl e \<Longrightarrow> e = Subset_out_of_bounds"
  by (induction inds) (auto split: if_splits sum.splits)

lemma median_timestamp_empty_iff:
  "median_timestamp S = Inl Median_timestamp_out_of_range \<longleftrightarrow> S = []"
  by (simp add: median_timestamp_def Let_def)

lemma median_length_empty_iff:
  "median_length S = Inl Median_length_out_of_bounds \<longleftrightarrow> S = []"
  by (simp add: median_length_def Let_def)

lemma median_timestamp_total: "S \<noteq> [] \<Longrightarrow> \<exists>t. median_timestamp S = Inr t"
proof -
  assume "S \<noteq> []"
  then have "\<And>e. median_timestamp S \<noteq> Inl e" by (simp add: median_timestamp_def Let_def)
  then show ?thesis by (cases "median_timestamp S") auto
qed

lemma median_length_total: "S \<noteq> [] \<Longrightarrow> \<exists>m. median_length S = Inr m"
proof -
  assume "S \<noteq> []"
  then have "\<And>e. median_length S \<noteq> Inl e" by (simp add: median_length_def Let_def)
  then show ?thesis by (cases "median_length S") auto
qed

lemma decode_pulse_total: "S \<noteq> [] \<Longrightarrow> \<exists>r. decode_pulse S = Inr r"
  using median_length_total [of S] by (auto simp: decode_pulse_def Let_def)

lemma process_pulse_set_total: "S \<noteq> [] \<Longrightarrow> \<exists>g. process_pulse_set S lp = Inr g"
  using decode_pulse_total [of S] median_timestamp_total [of S]
  by (auto simp: process_pulse_set_def Let_def split: prod.splits)

lemma update_pulse_state_total:
  "S \<noteq> [] \<Longrightarrow> \<exists>lpe' cs' sq' p. update_pulse_state S lpe cs sq = Inr (lpe', cs', sq', p)"
  using process_pulse_set_total [of S "trunc lpe"]
  by (auto simp: update_pulse_state_def Let_def)

lemma update_pulse_state_empty:
  "update_pulse_state [] lpe cs sq = Inl Median_length_out_of_bounds"
  by (simp add: update_pulse_state_def process_pulse_set_def decode_pulse_def median_length_def)

lemma update_pulse_state_cases:
  assumes "update_pulse_state S lpe cs sq = Inr (lpe', cs', sq', p)"
  shows "(p = empty_group \<and> sq' = sq \<and> (cs' = cs \<or> cs' = empty_group))
       \<or> (5 \<le> length S \<and> samples p = S \<and> samples cs' = S \<and> channel cs' = channel p
           \<and> sweep cs' = sweep p \<and> epoch cs' = epoch p \<and> seq p = sq' \<and> skip p = 0)"
  using assms
  by (auto simp: update_pulse_state_def Let_def split: sum.splits if_splits)

lemma isempty_empty_group [simp]: "isempty empty_group"
  by (simp add: isempty_def empty_group_def)

lemma flush_pulse_set_total:
  assumes "pulse_inds st \<noteq> []" "\<forall>i\<in>set (pulse_inds st). i < length D"
  shows "\<exists>st'. flush_pulse_set D st = Inr st'"
proof -
  have s: "subset D (pulse_inds st) = Inr (map ((!) D) (pulse_inds st))"
    using assms(2) by (rule subset_ok)
  have "map ((!) D) (pulse_inds st) \<noteq> []" using assms(1) by simp
  from update_pulse_state_total [OF this, of "last_pulse_epoch st" "current_sweep st" "st_seq st"]
  show ?thesis by (auto simp: flush_pulse_set_def s)
qed

lemma flush_pulse_set_Inl:
  assumes "flush_pulse_set D st = Inl e" "pulse_inds st \<noteq> []"
  shows "e = Subset_out_of_bounds"
proof (cases "subset D (pulse_inds st)")
  case (Inl e')
  then show ?thesis using assms(1) subset_Inl [OF Inl] by (simp add: flush_pulse_set_def)
next
  case (Inr S)
  then have "S \<noteq> []" using subset_Inr [OF Inr] assms(2) by simp
  from update_pulse_state_total [OF this, of "last_pulse_epoch st" "current_sweep st" "st_seq st"]
  show ?thesis using assms(1) Inr by (auto simp: flush_pulse_set_def)
qed

lemma flush_pulse_set_Inr:
  assumes "flush_pulse_set D st = Inr st'"
  obtains S lpe cs sq p where
    "subset D (pulse_inds st) = Inr S"
    "update_pulse_state S (last_pulse_epoch st) (current_sweep st) (st_seq st) = Inr (lpe, cs, sq, p)"
    "st' = st\<lparr>last_pulse_epoch := lpe, current_sweep := cs, st_seq := sq,
                       pulse_inds := [], pulse_range := (0xffffffff, 0),
                       pulses := (if \<not> isempty p then pulses st @ [p] else pulses st)\<rparr>"
  using assms by (auto simp: flush_pulse_set_def split: sum.splits prod.splits)

lemma store_sweep_Inr:
  assumes "store_sweep D st = Inr st'"
  obtains S where
    "subset D (sweep_inds st) = Inr S"
    "st' = st\<lparr>sweep_inds := [],
              sweeps := (if \<not> isempty (current_sweep st)
                         then sweeps st @ [\<lparr>channel = channel (current_sweep st), sweep = sweep (current_sweep st),
                         epoch = epoch (current_sweep st), skip = 0, seq = st_seq st,
                         samples = S\<rparr>]
                         else sweeps st)\<rparr>"
  using assms by (auto simp: store_sweep_def Let_def split: sum.splits)

lemma store_sweep_total:
  "\<forall>i\<in>set (sweep_inds st). i < length D \<Longrightarrow> \<exists>st'. store_sweep D st = Inr st'"
  by (simp add: store_sweep_def subset_ok Let_def)

lemma store_sweep_Inl: "store_sweep D st = Inl e \<Longrightarrow> e = Subset_out_of_bounds"
  by (auto simp: store_sweep_def Let_def split: sum.splits dest: subset_Inl)

lemma step_Inl:
  assumes "step D i st = Inl e"
  shows "e = Subset_out_of_bounds"
  using assms
  by (auto simp: step_def Let_def split: if_splits sum.splits
           dest: flush_pulse_set_Inl store_sweep_Inl elim!: store_sweep_Inr)

lemma idx_ok_mono: "idx_ok n st \<Longrightarrow> n \<le> m \<Longrightarrow> idx_ok m st"
  by (fastforce simp: idx_ok_def)

lemma flush_idx_ok: "flush_pulse_set D st = Inr st' \<Longrightarrow> idx_ok n st \<Longrightarrow> idx_ok n st'"
  by (erule flush_pulse_set_Inr) (simp add: idx_ok_def)

lemma store_idx_ok: "store_sweep D st = Inr st' \<Longrightarrow> idx_ok n st \<Longrightarrow> idx_ok n st'"
  by (erule store_sweep_Inr) (simp add: idx_ok_def)

lemma store_pulse_inds: "store_sweep D st = Inr st' \<Longrightarrow> pulse_inds st' = pulse_inds st"
  by (erule store_sweep_Inr) simp

lemma step_idx_ok:
  assumes "step D i st = Inr st'" "idx_ok i st"
  shows "idx_ok (Suc i) st'"
proof -
  have a: "\<And>s. idx_ok i s \<Longrightarrow> idx_ok (Suc i) s" by (erule idx_ok_mono) simp
  have b: "\<And>s. idx_ok i s \<Longrightarrow> idx_ok (Suc i) (s\<lparr>sweep_inds := sweep_inds s @ [i]\<rparr>)"
    by (fastforce simp: idx_ok_def)
  have c: "\<And>s r. idx_ok i s \<Longrightarrow> idx_ok (Suc i) (s\<lparr>pulse_range := r, pulse_inds := pulse_inds s @ [i]\<rparr>)"
    by (fastforce simp: idx_ok_def)
  show ?thesis
    using assms
    by (auto simp: step_def Let_def split: if_splits sum.splits
        intro!: a b c dest: flush_idx_ok store_idx_ok)
qed

lemma step_total:
  assumes "idx_ok i st" "i < length D"
  shows "\<exists>st'. step D i st = Inr st'"
proof (cases "step D i st")
  case (Inr st')
  then show ?thesis by blast
next
  case (Inl e)
  have p: "\<forall>j\<in>set (pulse_inds st). j < length D" and s: "\<forall>j\<in>set (sweep_inds st). j < length D"
    using assms by (auto simp: idx_ok_def)
  from store_sweep_total [OF s] obtain st1 where st1: "store_sweep D st = Inr st1" by blast
  have p1: "\<forall>j\<in>set (pulse_inds st1). j < length D" using p store_pulse_inds [OF st1] by simp
  show ?thesis
  proof (cases "uint (length_u16 (D ! i)) < 2000")
    case True
    then show ?thesis using flush_pulse_set_total [OF _ p]
      by (cases "pulse_inds st = []") (auto simp: step_def Let_def)
  next
    case False
    then show ?thesis
      using flush_pulse_set_total [OF _ p] flush_pulse_set_total [OF _ p1] st1
      by (cases "sweep_inds st = []") (auto simp: step_def Let_def)
  qed
qed

lemma run_total: "n \<le> length D \<Longrightarrow> \<exists>st. run D n = Inr st \<and> idx_ok n st"
proof (induction n)
  case 0
  then show ?case by (simp add: init_state_def idx_ok_def)
next
  case (Suc n)
  then obtain st where st: "run D n = Inr st" "idx_ok n st" by auto
  from step_total [OF st(2), of D] Suc.prems obtain st' where st': "step D n st = Inr st'" by auto
  from step_idx_ok [OF st' st(2)] st st' show ?case by simp
qed

lemma process_total: "\<exists>sw pu. process_lighthouse_samples D = Inr (sw, pu)"
  using run_total [of "length D" D] by (auto simp: process_lighthouse_samples_def)

text \<open>
  C9. \<^verbatim>\<open>median_timestamp\<close> and \<^verbatim>\<open>median_length\<close> fail exactly on the empty sample
  list, where the even-size branch reads outside the vector, and so does
  \<^verbatim>\<open>update_pulse_state\<close> on an empty pulse set. A round of the loop of
  \<^verbatim>\<open>process_lighthouse_samples\<close> hands \<^verbatim>\<open>update_pulse_state\<close> a pulse set only when
  the accumulated index list is non-empty: from no state does a round end in one of the two
  median errors, and the whole function returns its two lists for every input stream.
\<close>

theorem medians_defined_in_pipeline:
  "(median_timestamp S = Inl Median_timestamp_out_of_range \<longleftrightarrow> S = [])
   \<and> (median_length S = Inl Median_length_out_of_bounds \<longleftrightarrow> S = [])
   \<and> ((\<exists>t m. median_timestamp S = Inr t \<and> median_length S = Inr m) \<longleftrightarrow> S \<noteq> [])
   \<and> update_pulse_state [] lpe cs sq = Inl Median_length_out_of_bounds
   \<and> step D i st \<notin> {Inl Median_timestamp_out_of_range, Inl Median_length_out_of_bounds}
   \<and> (\<exists>sw pu. process_lighthouse_samples D = Inr (sw, pu))"
proof (intro conjI)
  show "median_timestamp S = Inl Median_timestamp_out_of_range \<longleftrightarrow> S = []"
    by (rule median_timestamp_empty_iff)
  show "median_length S = Inl Median_length_out_of_bounds \<longleftrightarrow> S = []"
    by (rule median_length_empty_iff)
  show "(\<exists>t m. median_timestamp S = Inr t \<and> median_length S = Inr m) \<longleftrightarrow> S \<noteq> []"
  proof
    assume "\<exists>t m. median_timestamp S = Inr t \<and> median_length S = Inr m"
    then show "S \<noteq> []" using median_length_empty_iff [of S] by auto
  next
    assume "S \<noteq> []"
    then show "\<exists>t m. median_timestamp S = Inr t \<and> median_length S = Inr m"
      using median_timestamp_total [of S] median_length_total [of S] by auto
  qed
  show "update_pulse_state [] lpe cs sq = Inl Median_length_out_of_bounds"
    by (rule update_pulse_state_empty)
  show "step D i st \<notin> {Inl Median_timestamp_out_of_range, Inl Median_length_out_of_bounds}"
    using step_Inl [of D i st] by auto
  show "\<exists>sw pu. process_lighthouse_samples D = Inr (sw, pu)"
    by (rule process_total)
qed

subsection \<open>Pulse sets\<close>

lemma range_of_Nil: "range_of [] = (0xffffffff, 0)"
  by (simp add: range_of_def)

lemma range_of_snoc: "range_of (S @ [s]) = extend_range (range_of S) s"
  by (simp add: range_of_def)

lemma chained_Nil: "chained []"
  by (simp add: chained_def)

lemma chained_snoc:
  "chained (S @ [s]) \<longleftrightarrow> chained S \<and> (S = [] \<or> overlaps_range s (range_of S))"
proof (cases "S = []")
  case True
  then show ?thesis by (simp add: chained_def)
next
  case False
  then have n: "1 \<le> length S" by (cases S) simp_all
  have set_eq: "{1..<length (S @ [s])} = insert (length S) {1..<length S}"
    using n by auto
  have old: "\<And>k. k \<in> {1..<length S} \<Longrightarrow>
      overlaps_range ((S @ [s]) ! k) (range_of (take k (S @ [s])))
        = overlaps_range (S ! k) (range_of (take k S))"
    by (simp add: nth_append)
  show ?thesis
    unfolding chained_def set_eq using False old by auto
qed

lemma flush_pulse_set_inv:
  assumes "flush_pulse_set D st = Inr st'" "pulse_set_inv D st"
  shows "pulse_set_inv D st'"
proof -
  from assms(1) obtain S lpe cs sq p where
    S: "subset D (pulse_inds st) = Inr S"
    and u: "update_pulse_state S (last_pulse_epoch st) (current_sweep st) (st_seq st) = Inr (lpe, cs, sq, p)"
    and st': "st' = st\<lparr>last_pulse_epoch := lpe, current_sweep := cs, st_seq := sq,
                       pulse_inds := [], pulse_range := (0xffffffff, 0),
                       pulses := (if \<not> isempty p then pulses st @ [p] else pulses st)\<rparr>"
    by (rule flush_pulse_set_Inr)
  have Smap: "S = map ((!) D) (pulse_inds st)" using subset_Inr [OF S] by simp
  have "chained (samples p)" if "\<not> isempty p"
  proof -
    from update_pulse_state_cases [OF u] that have "samples p = S" by auto
    then show ?thesis using assms(2) Smap by (simp add: pulse_set_inv_def)
  qed
  then show ?thesis
    using assms(2) by (auto simp: st' pulse_set_inv_def range_of_Nil chained_Nil)
qed

lemma store_sweep_pulse_set_inv:
  assumes "store_sweep D st = Inr st'" "pulse_set_inv D st"
  shows "pulse_set_inv D st'"
  using assms(1)
proof (rule store_sweep_Inr)
  fix S
  assume "st' = st\<lparr>sweep_inds := [],
              sweeps := (if \<not> isempty (current_sweep st)
                         then sweeps st @ [\<lparr>channel = channel (current_sweep st), sweep = sweep (current_sweep st),
                         epoch = epoch (current_sweep st), skip = 0, seq = st_seq st,
                         samples = S\<rparr>]
                         else sweeps st)\<rparr>"
  then show ?thesis using assms(2) by (simp add: pulse_set_inv_def)
qed

lemma push_sweep_pulse_set_inv:
  "pulse_set_inv D st \<Longrightarrow> pulse_set_inv D (st\<lparr>sweep_inds := sweep_inds st @ [i]\<rparr>)"
  by (simp add: pulse_set_inv_def)

lemma push_pulse_pulse_set_inv:
  assumes "pulse_set_inv D st"
    and "pulse_inds st = [] \<or> (timestamp (D ! i) \<le> snd (pulse_range st)
                           \<and> sample_end (D ! i) \<ge> fst (pulse_range st))"
  shows "pulse_set_inv D (st\<lparr>pulse_range := (min (fst (pulse_range st)) (timestamp (D ! i)),
                                     max (snd (pulse_range st)) (sample_end (D ! i))),
                                  pulse_inds := pulse_inds st @ [i]\<rparr>)"
proof -
  let ?S = "map ((!) D) (pulse_inds st)"
  have r: "pulse_range st = range_of ?S" and c: "chained ?S"
    and g: "\<forall>g\<in>set (pulses st). chained (samples g)"
    using assms(1) by (simp_all add: pulse_set_inv_def)
  have "chained (?S @ [D ! i])"
    using c assms(2) r by (auto simp: chained_snoc overlaps_range_def)
  moreover have "range_of (?S @ [D ! i])
      = (min (fst (pulse_range st)) (timestamp (D ! i)), max (snd (pulse_range st)) (sample_end (D ! i)))"
    by (simp add: range_of_snoc extend_range_def r)
  ultimately show ?thesis using g by (simp add: pulse_set_inv_def)
qed

lemma step_pulse_set_inv:
  assumes "step D i st = Inr st'" "pulse_set_inv D st"
  shows "pulse_set_inv D st'"
  using assms
  by (auto simp: step_def Let_def split: if_splits sum.splits
      intro: push_sweep_pulse_set_inv push_pulse_pulse_set_inv
      dest: flush_pulse_set_inv store_sweep_pulse_set_inv)

lemma run_pulse_set_inv: "run D n = Inr st \<Longrightarrow> pulse_set_inv D st"
proof (induction n arbitrary: st)
  case 0
  then show ?case
    by (auto simp: init_state_def pulse_set_inv_def range_of_Nil chained_Nil)
next
  case (Suc n)
  then show ?case by (auto split: sum.splits dest: step_pulse_set_inv)
qed

text \<open>
  C6 (as amended). In every emitted pulse group, every event but the first meets the range
  spanned by the events before it in the group: its timestamp is at most the largest end
  and its end is at least the smallest timestamp among them, in unsigned 32-bit arithmetic
  (an end is timestamp + length and may wrap). This is the test the source applies when it
  adds an event to a pulse set; it does not make the events meet pairwise.
\<close>

theorem pulse_group_chained:
  assumes "process_lighthouse_samples D = Inr (sw, pu)" and "g \<in> set pu"
  shows "\<forall>k\<in>{1..<length (samples g)}.
           timestamp (samples g ! k) \<le> snd (range_of (take k (samples g)))
           \<and> fst (range_of (take k (samples g))) \<le> sample_end (samples g ! k)"
proof -
  from assms(1) obtain st where st: "run D (length D) = Inr st" and pu: "pu = pulses st"
    by (auto simp: process_lighthouse_samples_def split: sum.splits)
  from run_pulse_set_inv [OF st] assms(2) pu have "chained (samples g)"
    by (simp add: pulse_set_inv_def)
  then show ?thesis by (simp add: chained_def overlaps_range_def)
qed

lemma chain_stream_eval:
  "process_lighthouse_samples chain_stream = Inr ([], [chain_group])"
  by code_simp

theorem pulse_group_chained_witness:
  "process_lighthouse_samples chain_stream = Inr ([], [chain_group])
   \<and> timestamp (samples chain_group ! 4) \<le> snd (range_of (take 4 (samples chain_group)))
   \<and> fst (range_of (take 4 (samples chain_group))) \<le> sample_end (samples chain_group ! 4)"
proof -
  have m: "chain_group \<in> set [chain_group]" by simp
  have k: "(4::nat) \<in> {1..<length (samples chain_group)}"
    by (simp add: chain_group_def pulse_cluster_def)
  from pulse_group_chained [OF chain_stream_eval m] k
  show ?thesis using chain_stream_eval by blast
qed

text \<open>
  The claim as stated fails on \<open>chain_stream\<close>: the emitted pulse group holds the events
  [400000, 403000] and [404500, 407500], which do not meet.
\<close>

theorem pulse_group_pairwise_counterexample:
  "process_lighthouse_samples chain_stream = Inr ([], [chain_group])
   \<and> samples chain_group ! 0 = mk_sample 400000 0 3000
   \<and> samples chain_group ! 4 = mk_sample 404500 4 3000
   \<and> \<not> intervals_overlap (mk_sample 400000 0 3000) (mk_sample 404500 4 3000)"
proof -
  have "samples chain_group ! 0 = mk_sample 400000 0 3000"
    by (simp add: chain_group_def pulse_cluster_def upt_rec)
  moreover have "samples chain_group ! 4 = mk_sample 404500 4 3000"
    by (simp add: chain_group_def pulse_cluster_def upt_rec)
  moreover have "\<not> intervals_overlap (mk_sample 400000 0 3000) (mk_sample 404500 4 3000)"
    by (simp add: intervals_overlap_def mk_sample_def)
  ultimately show ?thesis using chain_stream_eval by simp
qed

subsection \<open>Sweep groups inherit from pulse groups\<close>

lemma flush_sweep_backed:
  assumes "flush_pulse_set D st = Inr st'" "sweep_backed st"
  shows "sweep_backed st'"
proof -
  from assms(1) obtain S lpe cs sq p where
    u: "update_pulse_state S (last_pulse_epoch st) (current_sweep st) (st_seq st) = Inr (lpe, cs, sq, p)"
    and st': "st' = st\<lparr>last_pulse_epoch := lpe, current_sweep := cs, st_seq := sq,
                       pulse_inds := [], pulse_range := (0xffffffff, 0),
                       pulses := (if \<not> isempty p then pulses st @ [p] else pulses st)\<rparr>"
    by (rule flush_pulse_set_Inr)
  from update_pulse_state_cases [OF u] show ?thesis
  proof
    assume "p = empty_group \<and> sq = st_seq st \<and> (cs = current_sweep st \<or> cs = empty_group)"
    then show ?thesis using assms(2) by (auto simp: st' sweep_backed_def)
  next
    assume a: "5 \<le> length S \<and> samples p = S \<and> samples cs = S \<and> channel cs = channel p
           \<and> sweep cs = sweep p \<and> epoch cs = epoch p \<and> seq p = sq \<and> skip p = 0"
    then have "\<not> isempty p" by (auto simp: isempty_def)
    then show ?thesis using a by (auto simp: st' sweep_backed_def)
  qed
qed

lemma flush_sweeps: "flush_pulse_set D st = Inr st' \<Longrightarrow> sweeps st' = sweeps st"
  by (erule flush_pulse_set_Inr) simp

lemma flush_pulses: "flush_pulse_set D st = Inr st' \<Longrightarrow> \<exists>ps. pulses st' = pulses st @ ps"
  by (erule flush_pulse_set_Inr) simp

lemma store_sweep_backed:
  assumes "store_sweep D st = Inr st'" "sweep_backed st"
  shows "sweep_backed st'"
  using assms(1) by (rule store_sweep_Inr) (use assms(2) in \<open>simp add: sweep_backed_def\<close>)

lemma store_pulses: "store_sweep D st = Inr st' \<Longrightarrow> pulses st' = pulses st"
  by (erule store_sweep_Inr) simp

lemma store_sweeps:
  assumes "store_sweep D st = Inr st'" "sweep_backed st"
  shows "sweeps st' = sweeps st
         \<or> (\<exists>s p. sweeps st' = sweeps st @ [s] \<and> p \<in> set (pulses st) \<and> inherits s p)"
  using assms(1)
proof (rule store_sweep_Inr)
  fix S
  assume st': "st' = st\<lparr>sweep_inds := [],
              sweeps := (if \<not> isempty (current_sweep st)
                         then sweeps st @ [\<lparr>channel = channel (current_sweep st), sweep = sweep (current_sweep st),
                         epoch = epoch (current_sweep st), skip = 0, seq = st_seq st,
                         samples = S\<rparr>]
                         else sweeps st)\<rparr>"
  show ?thesis
  proof (cases "isempty (current_sweep st)")
    case True
    then show ?thesis by (simp add: st')
  next
    case False
    with assms(2) obtain p where "p \<in> set (pulses st)" "channel p = channel (current_sweep st)"
      "sweep p = sweep (current_sweep st)" "epoch p = epoch (current_sweep st)" "seq p = st_seq st"
      by (auto simp: sweep_backed_def)
    then show ?thesis using False by (auto simp: st' inherits_def)
  qed
qed

lemma step_sweep_backed:
  assumes "step D i st = Inr st'" "sweep_backed st"
  shows "sweep_backed st'"
proof -
  have a: "\<And>s. sweep_backed s \<Longrightarrow> sweep_backed (s\<lparr>sweep_inds := sweep_inds s @ [i]\<rparr>)"
    by (simp add: sweep_backed_def)
  have b: "\<And>s r. sweep_backed s \<Longrightarrow> sweep_backed (s\<lparr>pulse_range := r, pulse_inds := pulse_inds s @ [i]\<rparr>)"
    by (simp add: sweep_backed_def)
  show ?thesis
    using assms
    by (auto simp: step_def Let_def split: if_splits sum.splits
        intro!: a b dest: flush_sweep_backed store_sweep_backed)
qed

lemma step_pulses:
  assumes "step D i st = Inr st'"
  shows "\<exists>ps. pulses st' = pulses st @ ps"
  using assms
  by (auto simp: step_def Let_def split: if_splits sum.splits
      dest!: flush_pulses store_pulses)

lemma step_sweeps:
  assumes "step D i st = Inr st'" "sweep_backed st"
  shows "sweeps st' = sweeps st
         \<or> (\<exists>s p. sweeps st' = sweeps st @ [s] \<and> p \<in> set (pulses st) \<and> inherits s p)"
proof (cases "uint (length_u16 (D ! i)) < 2000")
  case True
  then have "sweeps st' = sweeps st"
    using assms(1)
    by (auto simp: step_def Let_def split: if_splits sum.splits dest: flush_sweeps)
  then show ?thesis by simp
next
  case False
  show ?thesis
  proof (cases "sweep_inds st = []")
    case True
    then have "sweeps st' = sweeps st"
      using assms(1) False
      by (auto simp: step_def Let_def split: if_splits sum.splits dest: flush_sweeps)
    then show ?thesis by simp
  next
    case ne: False
    from assms(1) False ne obtain st1 where st1: "store_sweep D st = Inr st1"
      and "sweeps st' = sweeps st1"
      by (auto simp: step_def Let_def split: if_splits sum.splits dest: flush_sweeps)
    then show ?thesis using store_sweeps [OF st1 assms(2)] by simp
  qed
qed

lemma run_sweep_backed: "run D n = Inr st \<Longrightarrow> sweep_backed st"
proof (induction n arbitrary: st)
  case 0
  then show ?case by (auto simp: init_state_def sweep_backed_def)
next
  case (Suc n)
  then show ?case by (auto split: sum.splits dest: step_sweep_backed)
qed

lemma run_Suc_Inr:
  assumes "run D (Suc n) = Inr st'"
  obtains st where "run D n = Inr st" "step D n st = Inr st'"
  using assms by (auto split: sum.splits)

lemma run_pulses_prefix:
  "n \<le> m \<Longrightarrow> run D n = Inr st \<Longrightarrow> run D m = Inr st' \<Longrightarrow> \<exists>ps. pulses st' = pulses st @ ps"
proof (induction m arbitrary: st')
  case 0
  then show ?case by simp
next
  case (Suc m)
  show ?case
  proof (cases "n = Suc m")
    case True
    with Suc.prems show ?thesis by simp
  next
    case False
    with Suc.prems have le: "n \<le> m" by simp
    from Suc.prems(3) obtain stm where stm: "run D m = Inr stm" "step D m stm = Inr st'"
      by (rule run_Suc_Inr)
    from Suc.IH [OF le Suc.prems(2) stm(1)] obtain ps where "pulses stm = pulses st @ ps" ..
    moreover from step_pulses [OF stm(2)] obtain qs where "pulses st' = pulses stm @ qs" ..
    ultimately show ?thesis by simp
  qed
qed

lemma run_sweeps_backed:
  "run D n = Inr st \<Longrightarrow> k < length (sweeps st) \<Longrightarrow>
     \<exists>m stm p. m < n \<and> run D m = Inr stm \<and> length (sweeps stm) \<le> k
               \<and> p \<in> set (pulses stm) \<and> inherits (sweeps st ! k) p"
proof (induction n arbitrary: st)
  case 0
  then show ?case by (auto simp: init_state_def)
next
  case (Suc n)
  from Suc.prems(1) obtain st0 where st0: "run D n = Inr st0" "step D n st0 = Inr st"
    by (rule run_Suc_Inr)
  have bk: "sweep_backed st0" using st0(1) by (rule run_sweep_backed)
  show ?case
  proof (cases "k < length (sweeps st0)")
    case True
    from Suc.IH [OF st0(1) True] obtain m stm p where
      m: "m < n" "run D m = Inr stm" "length (sweeps stm) \<le> k" "p \<in> set (pulses stm)"
         "inherits (sweeps st0 ! k) p"
      by blast
    have "sweeps st ! k = sweeps st0 ! k"
      using step_sweeps [OF st0(2) bk] True by (auto simp: nth_append)
    with m show ?thesis by (intro exI [of _ m] exI [of _ stm] exI [of _ p]) simp
  next
    case False
    with step_sweeps [OF st0(2) bk] Suc.prems(2)
    obtain s p where sp: "sweeps st = sweeps st0 @ [s]" "p \<in> set (pulses st0)" "inherits s p"
      by auto
    with False Suc.prems(2) have "k = length (sweeps st0)" by simp
    then have "sweeps st ! k = s" by (simp add: sp(1))
    with sp st0(1) \<open>k = length (sweeps st0)\<close> show ?thesis
      by (intro exI [of _ n] exI [of _ st0] exI [of _ p]) simp
  qed
qed

text \<open>
  C7. For every input stream and every sweep group emitted by
  \<^verbatim>\<open>process_lighthouse_samples\<close> (the \<open>k\<close>-th of the returned sweeps), a pulse group
  emitted earlier has the same channel, rotor, epoch and sequence number: there is a round
  \<open>n\<close> of the loop before which that sweep group was not yet emitted, while the pulse
  group was already in the list of pulses, which is an initial part of the returned one.
\<close>

theorem sweep_inherits_earlier_pulse:
  assumes "process_lighthouse_samples D = Inr (sw, pu)" and "k < length sw"
  shows "\<exists>n st p. n < length D \<and> run D n = Inr st \<and> length (sweeps st) \<le> k
           \<and> p \<in> set (pulses st) \<and> (\<exists>ps. pu = pulses st @ ps) \<and> inherits (sw ! k) p"
proof -
  from assms(1) obtain stf where stf: "run D (length D) = Inr stf"
    and sw: "sw = sweeps stf" and pu: "pu = pulses stf"
    by (auto simp: process_lighthouse_samples_def split: sum.splits)
  from run_sweeps_backed [OF stf] assms(2) sw obtain m stm p where
    m: "m < length D" "run D m = Inr stm" "length (sweeps stm) \<le> k" "p \<in> set (pulses stm)"
       "inherits (sw ! k) p"
    by blast
  from run_pulses_prefix [OF _ m(2) stf] m(1) obtain ps where "pulses stf = pulses stm @ ps"
    by auto
  with m pu show ?thesis by blast
qed

lemma unclassified_stream_eval:
  "process_lighthouse_samples unclassified_stream = Inr (stale_sweeps, [resync_pulse])"
  by code_simp

theorem sweep_inherits_earlier_pulse_witness:
  "\<exists>n st p. n < length unclassified_stream \<and> run unclassified_stream n = Inr st
      \<and> length (sweeps st) \<le> 1 \<and> p \<in> set (pulses st)
      \<and> (\<exists>ps. [resync_pulse] = pulses st @ ps) \<and> inherits (stale_sweeps ! 1) p"
proof -
  have k: "1 < length stale_sweeps" by (simp add: stale_sweeps_def)
  show ?thesis by (rule sweep_inherits_earlier_pulse [OF unclassified_stream_eval k])
qed

subsection \<open>End of the stream\<close>

lemma subset_append:
  assumes "\<forall>i\<in>set inds. i < length D"
  shows "subset (D @ E) inds = subset D inds"
proof -
  have "subset (D @ E) inds = Inr (map ((!) (D @ E)) inds)"
    using assms by (intro subset_ok) auto
  moreover have "map ((!) (D @ E)) inds = map ((!) D) inds"
    using assms by (auto simp: nth_append)
  ultimately show ?thesis using subset_ok [OF assms] by simp
qed

lemma flush_append:
  "\<forall>i\<in>set (pulse_inds st). i < length D \<Longrightarrow> flush_pulse_set (D @ E) st = flush_pulse_set D st"
  by (simp add: flush_pulse_set_def subset_append)

lemma store_append:
  "\<forall>i\<in>set (sweep_inds st). i < length D \<Longrightarrow> store_sweep (D @ E) st = store_sweep D st"
  by (simp add: store_sweep_def subset_append)

lemma step_append:
  assumes "idx_ok i st" "i < length D"
  shows "step (D @ E) i st = step D i st"
proof -
  have p: "\<forall>j\<in>set (pulse_inds st). j < length D" and s: "\<forall>j\<in>set (sweep_inds st). j < length D"
    using assms by (auto simp: idx_ok_def)
  have f: "flush_pulse_set (D @ E) st = flush_pulse_set D st" using p by (rule flush_append)
  have g: "store_sweep (D @ E) st = store_sweep D st" using s by (rule store_append)
  have h: "flush_pulse_set (D @ E) st1 = flush_pulse_set D st1" if "store_sweep D st = Inr st1" for st1
    using p store_pulse_inds [OF that] by (intro flush_append) simp
  have n: "(D @ E) ! i = D ! i" using assms(2) by (simp add: nth_append)
  show ?thesis
    unfolding step_def n Let_def f g
    by (auto split: sum.splits simp: h f)
qed

lemma run_append: "n \<le> length D \<Longrightarrow> run (D @ E) n = run D n"
proof (induction n)
  case 0
  then show ?case by simp
next
  case (Suc n)
  then have eq: "run (D @ E) n = run D n" by simp
  from run_total [of n D] Suc.prems obtain st where st: "run D n = Inr st" "idx_ok n st" by auto
  show ?case using step_append [OF st(2), of D E] Suc.prems by (simp add: eq st(1))
qed

text \<open>
  C3 (as amended). \<^verbatim>\<open>process_lighthouse_samples\<close> flushes nothing at the end of the
  stream: it returns the groups emitted during the rounds, and the pulse set and the sweep
  buffer that remain after the last event are both discarded. A pulse set reaches the state
  machine only when a later event ends it. So, for every stream, one more pulse event that
  starts or joins the pending pulse set leaves the emitted pulse groups as they are, and
  one more sweep event while no pulse set is pending leaves both outputs as they are.
\<close>

theorem no_flush_at_end_of_stream:
  assumes "run D (length D) = Inr st"
  shows "process_lighthouse_samples D = Inr (sweeps st, pulses st)
     \<and> (2000 \<le> uint (length_u16 e)
          \<and> (pulse_inds st = [] \<or> (timestamp e \<le> snd (pulse_range st)
                                    \<and> fst (pulse_range st) \<le> sample_end e))
        \<longrightarrow> (\<exists>sw. process_lighthouse_samples (D @ [e]) = Inr (sw, pulses st)))
     \<and> (uint (length_u16 e) < 2000 \<and> pulse_inds st = []
        \<longrightarrow> process_lighthouse_samples (D @ [e]) = Inr (sweeps st, pulses st))"
proof (intro conjI impI)
  show "process_lighthouse_samples D = Inr (sweeps st, pulses st)"
    using assms by (simp add: process_lighthouse_samples_def)
next
  have r: "run (D @ [e]) (length D) = Inr st" using assms by (simp add: run_append)
  have n: "(D @ [e]) ! length D = e" by simp
  {
    assume a: "2000 \<le> uint (length_u16 e)
          \<and> (pulse_inds st = [] \<or> (timestamp e \<le> snd (pulse_range st)
                                    \<and> fst (pulse_range st) \<le> sample_end e))"
    from run_total [of "Suc (length D)" "D @ [e]"] obtain st' where
      st': "run (D @ [e]) (Suc (length D)) = Inr st'" by auto
    then have s: "step (D @ [e]) (length D) st = Inr st'" using r by simp
    have "pulses st' = pulses st"
      using s a unfolding step_def n Let_def
      by (auto split: sum.splits if_splits dest: store_pulses store_pulse_inds
               elim!: store_sweep_Inr)
    then show "\<exists>sw. process_lighthouse_samples (D @ [e]) = Inr (sw, pulses st)"
      using st' by (simp add: process_lighthouse_samples_def)
  }
  {
    assume a: "uint (length_u16 e) < 2000 \<and> pulse_inds st = []"
    have "step (D @ [e]) (length D) st = Inr (if isempty (current_sweep st) then st
             else st\<lparr>sweep_inds := sweep_inds st @ [length D]\<rparr>)"
      using a unfolding step_def n Let_def by simp
    then show "process_lighthouse_samples (D @ [e]) = Inr (sweeps st, pulses st)"
      using r by (simp add: process_lighthouse_samples_def)
  }
qed

lemma trailing_pulse_run:
  "run trailing_pulse_stream (length trailing_pulse_stream) = Inr trailing_state"
  by code_simp

lemma dropped_run:
  "run dropped_stream (length dropped_stream) = Inr dropped_state"
  by code_simp

theorem no_flush_at_end_of_stream_witness:
  "run trailing_pulse_stream (length trailing_pulse_stream) = Inr trailing_state
   \<and> process_lighthouse_samples trailing_pulse_stream = Inr ([], [])
   \<and> (\<exists>sw. process_lighthouse_samples (trailing_pulse_stream @ [mk_sample 400100 5 3000])
              = Inr (sw, []))
   \<and> process_lighthouse_samples (dropped_stream @ [mk_sample 300000 0 500]) = Inr ([], [])"
proof -
  have a: "2000 \<le> uint (length_u16 (mk_sample 400100 5 3000))
          \<and> (pulse_inds trailing_state = []
              \<or> (timestamp (mk_sample 400100 5 3000) \<le> snd (pulse_range trailing_state)
                  \<and> fst (pulse_range trailing_state) \<le> sample_end (mk_sample 400100 5 3000)))"
    by (simp add: trailing_state_def mk_sample_def sample_end_def)
  have b: "uint (length_u16 (mk_sample 300000 0 500)) < 2000 \<and> pulse_inds dropped_state = []"
    by (simp add: dropped_state_def mk_sample_def)
  have p: "pulses trailing_state = []" "sweeps trailing_state = []"
    "pulses dropped_state = []" "sweeps dropped_state = []"
    by (simp_all add: trailing_state_def dropped_state_def)
  from no_flush_at_end_of_stream [OF trailing_pulse_run, of "mk_sample 400100 5 3000"] a
  have 1: "process_lighthouse_samples trailing_pulse_stream = Inr ([], [])"
    and 2: "\<exists>sw. process_lighthouse_samples (trailing_pulse_stream @ [mk_sample 400100 5 3000])
              = Inr (sw, [])"
    by (simp_all add: p)
  from no_flush_at_end_of_stream [OF dropped_run, of "mk_sample 300000 0 500"] b
  have 3: "process_lighthouse_samples (dropped_stream @ [mk_sample 300000 0 500]) = Inr ([], [])"
    by (simp add: p)
  show ?thesis using trailing_pulse_run 1 2 3 by simp
qed

text \<open>
  The claim as stated fails on \<open>trailing_pulse_stream\<close>: the stream ends with five pulse
  events pending, which the state machine would turn into a pulse group of channel A, and
  no pulse group is returned.
\<close>

theorem trailing_pulse_counterexample:
  "process_lighthouse_samples trailing_pulse_stream = Inr ([], [])
   \<and> pulse_inds trailing_state = [6, 7, 8, 9, 10]
   \<and> subset trailing_pulse_stream [6, 7, 8, 9, 10] = Inr (pulse_cluster 400000 3000 5)
   \<and> update_pulse_state (pulse_cluster 400000 3000 5) (last_pulse_epoch trailing_state)
        (current_sweep trailing_state) (st_seq trailing_state)
       = Inr (400000, resync_pulse\<lparr>seq := 0\<rparr>, 1, resync_pulse)
   \<and> \<not> isempty resync_pulse"
proof -
  have 1: "process_lighthouse_samples trailing_pulse_stream = Inr ([], [])"
    using trailing_pulse_run
    by (simp add: process_lighthouse_samples_def trailing_state_def)
  have 2: "pulse_inds trailing_state = [6, 7, 8, 9, 10]" by (simp add: trailing_state_def)
  have 3: "subset trailing_pulse_stream [6, 7, 8, 9, 10] = Inr (pulse_cluster 400000 3000 5)"
    by code_simp
  have 4: "update_pulse_state (pulse_cluster 400000 3000 5) (last_pulse_epoch trailing_state)
        (current_sweep trailing_state) (st_seq trailing_state)
       = Inr (400000, resync_pulse\<lparr>seq := 0\<rparr>, 1, resync_pulse)"
    by code_simp
  have 5: "\<not> isempty resync_pulse" by code_simp
  show ?thesis using 1 2 3 4 5 by simp
qed

subsection \<open>Pulse sets of unknown length\<close>

lemma error_class:
  assumes "list_all (\<lambda>e. \<not> pulse_matches L e) pulse_table \<or> L = 2700"
  shows "sp_skip (snd (lookup_pulse_class L)) = - 1 \<and> sp_sweep (snd (lookup_pulse_class L)) = - 1"
  using assms
proof
  assume "list_all (\<lambda>e. \<not> pulse_matches L e) pulse_table"
  then have "\<forall>i<length pulse_table. \<not> pulse_matches L (pulse_table ! i)"
    by (simp add: list_all_length)
  then have "lookup_pulse_class L = ([No_pulse_class L], lighthouse_sync_pulse_default)"
    unfolding lookup_pulse_class_def by (rule lookup_from_none)
  then show ?thesis by (simp add: lighthouse_sync_pulse_default_def mk_pulse_def)
next
  assume "L = 2700"
  then show ?thesis
    by (simp add: lookup_pulse_class_def pulse_table_def pulse_matches_def mk_pulse_def)
qed

lemma update_pulse_state_error_class:
  assumes m: "median_length S = Inr m"
    and c: "sp_skip (snd (lookup_pulse_class (word_of_int m))) = - 1"
  shows "\<exists>t. median_timestamp S = Inr t
          \<and> update_pulse_state S lpe cs sq
              = Inr (t, if channel_detect (word_of_int (trunc lpe)) t = CHR ''e'' \<or> length S < 5
                        then empty_group else cs, sq, empty_group)"
proof -
  from m have "S \<noteq> []" using median_length_empty_iff [of S] by auto
  then obtain t where t: "median_timestamp S = Inr t" using median_timestamp_total by blast
  show ?thesis
    using m c t
    by (simp add: update_pulse_state_def process_pulse_set_def decode_pulse_def Let_def)
qed

text \<open>
  C1 (as amended). For every flushed pulse set whose median length matches no row of the
  pulse table, and for median length 2700 (which matches the row 2500), the classifier
  gives skip = rotor = -1, the state machine emits no pulse group or sweep group for that
  set and keeps the sequence number. The channel comes from the pulse times alone, not from
  the length. When the channel detector answers err, or the set has fewer than 5 events,
  the current sweep is cleared, and every sweep event that follows is dropped for as long
  as no pulse event arrives.
\<close>

theorem unclassified_pulse_not_emitted:
  assumes "subset D (pulse_inds st) = Inr S" and "median_length S = Inr m"
    and "list_all (\<lambda>e. \<not> pulse_matches (word_of_int m) e) pulse_table \<or> m = 2700"
  shows "sp_skip (snd (lookup_pulse_class (word_of_int m))) = - 1
     \<and> sp_sweep (snd (lookup_pulse_class (word_of_int m))) = - 1
     \<and> (\<exists>st'. flush_pulse_set D st = Inr st' \<and> pulses st' = pulses st
           \<and> sweeps st' = sweeps st \<and> st_seq st' = st_seq st
           \<and> (channel_detect (word_of_int (trunc (last_pulse_epoch st))) (last_pulse_epoch st')
                  = CHR ''e'' \<or> length S < 5
               \<longrightarrow> isempty (current_sweep st')
                   \<and> (\<forall>i. uint (length_u16 (D ! i)) < 2000 \<longrightarrow> step D i st' = Inr st')))"
proof -
  have "list_all (\<lambda>e. \<not> pulse_matches (word_of_int m) e) pulse_table
        \<or> (word_of_int m :: 16 word) = 2700"
    using assms(3) by auto
  from error_class [OF this]
  have c: "sp_skip (snd (lookup_pulse_class (word_of_int m))) = - 1"
    and c2: "sp_sweep (snd (lookup_pulse_class (word_of_int m))) = - 1"
    by simp_all
  from update_pulse_state_error_class [OF assms(2) c, of "last_pulse_epoch st" "current_sweep st" "st_seq st"]
  obtain t where
    u: "update_pulse_state S (last_pulse_epoch st) (current_sweep st) (st_seq st)
        = Inr (t, if channel_detect (word_of_int (trunc (last_pulse_epoch st))) t = CHR ''e''
                      \<or> length S < 5
                  then empty_group else current_sweep st, st_seq st, empty_group)"
    by blast
  let ?cs = "if channel_detect (word_of_int (trunc (last_pulse_epoch st))) t = CHR ''e''
                      \<or> length S < 5
             then empty_group else current_sweep st"
  let ?st' = "st\<lparr>last_pulse_epoch := t, current_sweep := ?cs, st_seq := st_seq st,
                  pulse_inds := [], pulse_range := (0xffffffff, 0), pulses := pulses st\<rparr>"
  have f: "flush_pulse_set D st = Inr ?st'"
    by (simp add: flush_pulse_set_def assms(1) u)
  have d: "step D i ?st' = Inr ?st'"
    if "isempty (current_sweep ?st')" "uint (length_u16 (D ! i)) < 2000" for i
    using that by (simp add: step_def Let_def)
  have "pulses ?st' = pulses st \<and> sweeps ?st' = sweeps st \<and> st_seq ?st' = st_seq st
      \<and> (channel_detect (word_of_int (trunc (last_pulse_epoch st))) (last_pulse_epoch ?st')
            = CHR ''e'' \<or> length S < 5
          \<longrightarrow> isempty (current_sweep ?st')
               \<and> (\<forall>i. uint (length_u16 (D ! i)) < 2000 \<longrightarrow> step D i ?st' = Inr ?st'))"
    using d by auto
  with f c c2 show ?thesis by blast
qed

lemma pending_2700_run: "run unclassified_stream 17 = Inr pending_2700_state"
  by code_simp

lemma first_2700_run: "run first_2700_stream (length first_2700_stream) = Inr first_2700_state"
  by code_simp

theorem unclassified_pulse_not_emitted_witness:
  "run unclassified_stream 17 = Inr pending_2700_state
   \<and> (\<exists>st'. flush_pulse_set unclassified_stream pending_2700_state = Inr st'
          \<and> pulses st' = [resync_pulse] \<and> st_seq st' = 1)
   \<and> (\<exists>st'. flush_pulse_set first_2700_stream first_2700_state = Inr st'
          \<and> pulses st' = [] \<and> isempty (current_sweep st'))"
proof -
  have s1: "subset unclassified_stream (pulse_inds pending_2700_state)
              = Inr (pulse_cluster 800000 2700 5)"
    by code_simp
  have m1: "median_length (pulse_cluster 800000 2700 5) = Inr 2700" by code_simp
  have s2: "subset first_2700_stream (pulse_inds first_2700_state) = Inr (pulse_cluster 0 2700 5)"
    by code_simp
  have m2: "median_length (pulse_cluster 0 2700 5) = Inr 2700" by code_simp
  have h: "list_all (\<lambda>e. \<not> pulse_matches (word_of_int 2700) e) pulse_table \<or> (2700::int) = 2700"
    by simp
  have p: "pulses pending_2700_state = [resync_pulse]" "st_seq pending_2700_state = 1"
    "pulses first_2700_state = []"
    by (simp_all add: pending_2700_state_def first_2700_state_def)
  from unclassified_pulse_not_emitted [OF s1 m1 h]
  have 1: "\<exists>st'. flush_pulse_set unclassified_stream pending_2700_state = Inr st'
          \<and> pulses st' = [resync_pulse] \<and> st_seq st' = 1"
    by (auto simp: p)
  have fl: "flush_pulse_set first_2700_stream first_2700_state = Inr dropped_state"
    by code_simp
  have ch: "channel_detect (word_of_int (trunc (last_pulse_epoch first_2700_state)))
              (last_pulse_epoch dropped_state) = CHR ''e''"
    by code_simp
  from unclassified_pulse_not_emitted [OF s2 m2 h]
  obtain st' where st': "flush_pulse_set first_2700_stream first_2700_state = Inr st'"
    "pulses st' = pulses first_2700_state"
    "channel_detect (word_of_int (trunc (last_pulse_epoch first_2700_state))) (last_pulse_epoch st')
                  = CHR ''e'' \<or> length (pulse_cluster 0 2700 5) < 5
               \<longrightarrow> isempty (current_sweep st')"
    by blast
  from st'(1) fl have "st' = dropped_state" by simp
  with st' ch have 2: "\<exists>st'. flush_pulse_set first_2700_stream first_2700_state = Inr st'
          \<and> pulses st' = [] \<and> isempty (current_sweep st')"
    by (auto simp: p)
  show ?thesis using pending_2700_run 1 2 by simp
qed

text \<open>
  The claim as stated fails on \<open>unclassified_stream\<close>: its pulse set of median length
  2700 comes one period after a valid pulse, so its channel is A; the current sweep is kept,
  and the sweep event after it is not dropped but emitted in a second sweep group with the
  epoch of the old pulse.
\<close>

theorem unclassified_counterexample:
  "median_length (pulse_cluster 800000 2700 5) = Inr 2700
   \<and> run unclassified_stream 17 = Inr pending_2700_state
   \<and> subset unclassified_stream (pulse_inds pending_2700_state)
       = Inr (pulse_cluster 800000 2700 5)
   \<and> map_sum id channel
        (process_pulse_set (pulse_cluster 800000 2700 5)
           (trunc (last_pulse_epoch pending_2700_state))) = Inr (CHR ''A'')
   \<and> map_sum id current_sweep (flush_pulse_set unclassified_stream pending_2700_state)
       = Inr (resync_pulse\<lparr>seq := 0\<rparr>)
   \<and> \<not> isempty (resync_pulse\<lparr>seq := 0\<rparr>)
   \<and> process_lighthouse_samples unclassified_stream = Inr (stale_sweeps, [resync_pulse])
   \<and> samples (stale_sweeps ! 1) = [mk_sample 900000 1 500]"
proof -
  have 1: "median_length (pulse_cluster 800000 2700 5) = Inr 2700" by code_simp
  have 2: "subset unclassified_stream (pulse_inds pending_2700_state)
       = Inr (pulse_cluster 800000 2700 5)"
    by code_simp
  have 3: "map_sum id channel
        (process_pulse_set (pulse_cluster 800000 2700 5)
           (trunc (last_pulse_epoch pending_2700_state))) = Inr (CHR ''A'')"
    by code_simp
  have 4: "map_sum id current_sweep (flush_pulse_set unclassified_stream pending_2700_state)
       = Inr (resync_pulse\<lparr>seq := 0\<rparr>)"
    by code_simp
  have 5: "\<not> isempty (resync_pulse\<lparr>seq := 0\<rparr>)" by code_simp
  have 6: "samples (stale_sweeps ! 1) = [mk_sample 900000 1 500]"
    by (simp add: stale_sweeps_def)
  show ?thesis using 1 2 3 4 5 6 pending_2700_run unclassified_stream_eval by simp
qed


subsection \<open>Scenario S1\<close>

lemma S1_eval: "process_lighthouse_samples scenario_S1 = Inr ([], [S1_pulse])"
  by code_simp

text \<open>
  C5 (as amended). On the input of scenario S1 (\<^verbatim>\<open>VL_TICK_RATE\<close> = 48000000,
  \<^verbatim>\<open>VL_ROTOR_RPS\<close> = 60) the decoder emits one pulse group and no sweep group. The first
  cluster has no usable predecessor (the last pulse epoch starts at -1000000), so its channel
  is err: it is not emitted and the sweep events after it are dropped. The second cluster,
  380000 ticks after the first, is emitted with channel B, rotor V and sequence number 0.
  The sweep events after it are still in the buffer when the stream ends, and the sequence
  number is still 0.
\<close>

theorem scenario_S1_output:
  "process_lighthouse_samples scenario_S1 = Inr ([], [S1_pulse])
   \<and> map_sum id channel
        (process_pulse_set (pulse_cluster 0 3000 8) (trunc (last_pulse_epoch init_state)))
       = Inr (CHR ''e'')
   \<and> map_sum id (\<lambda>st. (st_seq st, sweep_inds st)) (run scenario_S1 (length scenario_S1))
       = Inr (0, [24, 25, 26, 27, 28, 29, 30, 31])"
proof -
  have 1: "map_sum id channel
        (process_pulse_set (pulse_cluster 0 3000 8) (trunc (last_pulse_epoch init_state)))
       = Inr (CHR ''e'')"
    by code_simp
  have 2: "map_sum id (\<lambda>st. (st_seq st, sweep_inds st)) (run scenario_S1 (length scenario_S1))
       = Inr (0, [24, 25, 26, 27, 28, 29, 30, 31])"
    by code_simp
  show ?thesis using S1_eval 1 2 by simp
qed

text \<open>
  The claim as stated fails: the decoder returns no sweep group and one pulse group, whose
  sequence number is 0.
\<close>

theorem scenario_S1_counterexample:
  "map_sum id (\<lambda>r. (length (fst r), length (snd r))) (process_lighthouse_samples scenario_S1)
     = Inr (0, 1)
   \<and> map_sum id (\<lambda>r. map seq (snd r)) (process_lighthouse_samples scenario_S1) = Inr [0]"
  by (simp add: S1_eval S1_pulse_def)

subsection \<open>Angle collator\<close>




































end
